(* ===== verification/Prelude.thy ===== *)
theory Prelude
  imports
    Main
    "HOL-Library.Word"
    "HOL-Library.List_Lexorder"
    "HOL-Library.AList"
    "HOL-Library.Monad_Syntax"
begin

text \<open>
  What every component shares: the machine integers and fixed-size byte arrays of the Rust
  code, its panics, the \<open>HashMap\<close>s it keeps its tables in, and the sequencing of code that
  changes state and may panic on the way. Two collections of facts carry the component
  proofs: \<open>hm_simps\<close> (lookups after updates of a table) and \<open>preserve\<close> (introduction rules
  for invariants of sequenced code).
\<close>

named_theorems hm_simps
named_theorems preserve

section \<open>Machine integers\<close>

text \<open>
  \<open>u8\<close>, \<open>u16\<close> and \<open>u64\<close> are words of that width. The Rust code is built and run in the
  debug profile (README: \<open>./target/debug/rust_pinecone\<close>), where \<open>+\<close>, \<open>-\<close> and \<open>*\<close> panic on
  overflow, so the checked operations below return \<open>None\<close> there. \<open>usize\<close> values only count
  elements held in memory and are natural numbers.
\<close>

type_synonym u8 = "8 word"
type_synonym u16 = "16 word"
type_synonym u64 = "64 word"

definition checked_add :: "'a::len word \<Rightarrow> 'a word \<Rightarrow> 'a word option" where
  "checked_add a b = (if unat a + unat b < 2 ^ LENGTH('a) then Some (a + b) else None)"

definition checked_sub :: "'a::len word \<Rightarrow> 'a word \<Rightarrow> 'a word option" where
  "checked_sub a b = (if b \<le> a then Some (a - b) else None)"

definition checked_mul :: "'a::len word \<Rightarrow> 'a word \<Rightarrow> 'a word option" where
  "checked_mul a b = (if unat a * unat b < 2 ^ LENGTH('a) then Some (a * b) else None)"

lemma checked_add_Some_iff:
  "checked_add a b = Some c \<longleftrightarrow> unat a + unat b < 2 ^ LENGTH('a) \<and> c = a + (b :: 'a::len word)"
  by (auto simp: checked_add_def)

lemma checked_add_ge: "checked_add a b = Some c \<Longrightarrow> a \<le> c"
  by (auto simp: checked_add_def word_le_nat_alt unat_add_lem split: if_splits)

lemma checked_add_max: "checked_add (- 1 :: 'a::len word) 1 = None"
  by (simp add: checked_add_def unsigned_minus_1_eq_mask mask_eq_exp_minus_1)

lemma checked_sub_Some_iff: "checked_sub a b = Some c \<longleftrightarrow> b \<le> a \<and> c = a - b"
  by (auto simp: checked_sub_def)

lemma checked_mul_Some_iff:
  "checked_mul a b = Some c \<longleftrightarrow> unat a * unat b < 2 ^ LENGTH('a) \<and> c = a * (b :: 'a::len word)"
  by (auto simp: checked_mul_def)

lemma unat_checked_add: "checked_add a b = Some c \<Longrightarrow> unat c = unat a + unat b"
  by (auto simp: checked_add_Some_iff unat_word_ariths)

lemma unat_checked_sub: "checked_sub a b = Some c \<Longrightarrow> unat c = unat a - unat b"
  by (auto simp: checked_sub_Some_iff unat_sub)

lemma unat_checked_mul: "checked_mul a b = Some c \<Longrightarrow> unat c = unat a * unat b"
  by (auto simp: checked_mul_Some_iff unat_word_ariths)

lemma unat_of_nat_small: "n < 2 ^ LENGTH('a) \<Longrightarrow> unat (of_nat n :: 'a::len word) = n"
  by (simp add: unat_of_nat take_bit_nat_eq_self)

section \<open>Byte arrays\<close>

text \<open>
  \<open>[u8; N]\<close>: a list of exactly \<open>N\<close> bytes. The order is the one Rust derives for arrays,
  lexicographic from the first byte.
\<close>

typedef (overloaded) ('n::len) byte_array = "{xs :: u8 list. length xs = LENGTH('n)}"
  morphisms bytes_of Byte_array
  by (rule exI [of _ "replicate LENGTH('n) 0"]) simp

setup_lifting type_definition_byte_array

lemma length_bytes_of [simp]: "length (bytes_of (a :: 'n::len byte_array)) = LENGTH('n)"
  using bytes_of [of a] by simp

instantiation byte_array :: (len) equal
begin

definition equal_byte_array :: "'a byte_array \<Rightarrow> 'a byte_array \<Rightarrow> bool" where
  "equal_byte_array a b \<longleftrightarrow> bytes_of a = bytes_of b"

instance
  by standard (simp add: equal_byte_array_def bytes_of_inject)

end

instantiation byte_array :: (len) linorder
begin

lift_definition less_eq_byte_array :: "'a byte_array \<Rightarrow> 'a byte_array \<Rightarrow> bool" is "(\<le>)" .

lift_definition less_byte_array :: "'a byte_array \<Rightarrow> 'a byte_array \<Rightarrow> bool" is "(<)" .

instance
  by standard (transfer; auto)+

end

lift_definition byte_array_of :: "u8 list \<Rightarrow> 'n::len byte_array" is
  "\<lambda>xs. take LENGTH('n) (xs @ replicate LENGTH('n) (0 :: u8))"
  by simp

lemma bytes_of_byte_array_of:
  "length xs = LENGTH('n) \<Longrightarrow> bytes_of (byte_array_of xs :: 'n::len byte_array) = xs"
  by (simp add: byte_array_of.rep_eq)

lemma byte_array_of_bytes_of [simp]: "byte_array_of (bytes_of a) = a"
  by (simp add: bytes_of_byte_array_of flip: bytes_of_inject)

text \<open>\<open>[b; N]\<close>, the array that repeats one byte; concrete keys in examples are of this form.\<close>

definition repeat_byte :: "u8 \<Rightarrow> 'n::len byte_array" where
  "repeat_byte b = byte_array_of (replicate LENGTH('n) b)"

lemma bytes_of_repeat_byte [simp]:
  "bytes_of (repeat_byte b :: 'n::len byte_array) = replicate LENGTH('n) b"
  by (simp add: repeat_byte_def bytes_of_byte_array_of)

lemma repeat_byte_eq_iff [simp]: "(repeat_byte b :: 'n::len byte_array) = repeat_byte c \<longleftrightarrow> b = c"
  by (simp flip: bytes_of_inject)

lemma replicate_less_iff: "0 < n \<Longrightarrow> replicate n (b :: 'b::linorder) < replicate n c \<longleftrightarrow> b < c"
  by (induction n) auto

lemma repeat_byte_less_iff [simp]: "(repeat_byte b :: 'n::len byte_array) < repeat_byte c \<longleftrightarrow> b < c"
  by (simp add: less_byte_array.rep_eq replicate_less_iff)

lemma repeat_byte_less_eq_iff [simp]:
  "(repeat_byte b :: 'n::len byte_array) \<le> repeat_byte c \<longleftrightarrow> b \<le> c"
  by (auto simp: le_less)

section \<open>Time\<close>

text \<open>
  \<open>SystemTime\<close> and \<open>Duration\<close> in nanoseconds. The clock is read by the caller and passed in;
  it may run backwards, and then \<open>duration_since\<close> is an error (here \<open>None\<close>), which
  \<open>elapsed().unwrap()\<close> turns into a panic.
\<close>

type_synonym system_time = nat
type_synonym duration = nat

definition from_secs :: "nat \<Rightarrow> duration" where
  "from_secs n = n * 1000000000"

definition duration_since :: "system_time \<Rightarrow> system_time \<Rightarrow> duration option" where
  "duration_since now earlier = (if earlier \<le> now then Some (now - earlier) else None)"

lemma duration_since_Some_iff: "duration_since now t = Some d \<longleftrightarrow> t \<le> now \<and> d = now - t"
  by (auto simp: duration_since_def)

lemma duration_since_None_iff: "duration_since now t = None \<longleftrightarrow> now < t"
  by (auto simp: duration_since_def)

section \<open>Hash maps\<close>

text \<open>
  A \<open>HashMap\<close> is a list of its entries in iteration order. \<open>insert\<close> replaces the value of a
  key it holds and adds a new entry otherwise; \<open>remove\<close> drops the entry. Rust leaves the
  iteration order open; the theorems about loops over a table hold for every list, so for
  every order.
\<close>

type_synonym ('k, 'v) hash_map = "('k \<times> 'v) list"

definition hm_get :: "('k, 'v) hash_map \<Rightarrow> 'k \<Rightarrow> 'v option" where
  "hm_get m k = map_of m k"

definition hm_insert :: "'k \<Rightarrow> 'v \<Rightarrow> ('k, 'v) hash_map \<Rightarrow> ('k, 'v) hash_map" where
  "hm_insert k v m = AList.update k v m"

definition hm_remove :: "'k \<Rightarrow> ('k, 'v) hash_map \<Rightarrow> ('k, 'v) hash_map" where
  "hm_remove k m = AList.delete k m"

definition hm_contains_key :: "('k, 'v) hash_map \<Rightarrow> 'k \<Rightarrow> bool" where
  "hm_contains_key m k \<longleftrightarrow> hm_get m k \<noteq> None"

definition hm_entries :: "('k, 'v) hash_map \<Rightarrow> ('k \<times> 'v) list" where
  "hm_entries m = m"

definition hm_wf :: "('k, 'v) hash_map \<Rightarrow> bool" where
  "hm_wf m \<longleftrightarrow> distinct (map fst m)"

text \<open>What the tables' users rely on, with the lemmas that follow from it alone.\<close>

locale hash_table =
  fixes get :: "'m \<Rightarrow> 'k \<Rightarrow> 'v option"
    and ins :: "'k \<Rightarrow> 'v \<Rightarrow> 'm \<Rightarrow> 'm"
    and rem :: "'k \<Rightarrow> 'm \<Rightarrow> 'm"
    and entries :: "'m \<Rightarrow> ('k \<times> 'v) list"
    and wf :: "'m \<Rightarrow> bool"
  assumes get_ins: "get (ins k v m) = (get m)(k \<mapsto> v)"
    and get_rem: "get (rem k m) = (get m)(k := None)"
    and wf_ins: "wf m \<Longrightarrow> wf (ins k v m)"
    and wf_rem: "wf m \<Longrightarrow> wf (rem k m)"
    and entries_distinct: "wf m \<Longrightarrow> distinct (map fst (entries m))"
    and entries_iff: "wf m \<Longrightarrow> (k, v) \<in> set (entries m) \<longleftrightarrow> get m k = Some v"
begin

lemma get_ins_other: "k' \<noteq> k \<Longrightarrow> get (ins k v m) k' = get m k'"
  by (simp add: get_ins)

lemma get_rem_SomeD: "get (rem k m) k' = Some v \<Longrightarrow> k' \<noteq> k \<and> get m k' = Some v"
  by (simp add: get_rem split: if_splits)

lemma get_ins_SomeD: "get (ins k v m) k' = Some v' \<Longrightarrow> k' = k \<and> v' = v \<or> get m k' = Some v'"
  by (simp add: get_ins split: if_splits)

lemma entries_ins:
  "wf m \<Longrightarrow> set (entries (ins k v m)) = {e \<in> set (entries m). fst e \<noteq> k} \<union> {(k, v)}"
  by (auto simp: entries_iff wf_ins get_ins split: if_splits)

lemma entries_rem: "wf m \<Longrightarrow> set (entries (rem k m)) = {e \<in> set (entries m). fst e \<noteq> k}"
  by (auto simp: entries_iff wf_rem get_rem split: if_splits)

lemma all_entries_ins:
  "wf m \<Longrightarrow> (\<And>k' v'. get m k' = Some v' \<Longrightarrow> P k' v') \<Longrightarrow> P k v \<Longrightarrow>
    get (ins k v m) k' = Some v' \<Longrightarrow> P k' v'"
  using get_ins_SomeD by blast

end

lemma hm_get_insert [hm_simps, simp]: "hm_get (hm_insert k v m) = (hm_get m)(k \<mapsto> v)"
  by (rule ext) (simp add: hm_get_def hm_insert_def update_conv')

lemma hm_get_remove [hm_simps, simp]: "hm_get (hm_remove k m) = (hm_get m)(k := None)"
  by (rule ext) (simp add: hm_get_def hm_remove_def delete_conv')

lemma hm_get_Nil [hm_simps, simp]: "hm_get [] k = None"
  by (simp add: hm_get_def)

lemma hm_get_Cons [hm_simps, simp]: "hm_get ((k, v) # m) k' = (if k' = k then Some v else hm_get m k')"
  by (simp add: hm_get_def)

lemma hm_contains_key_iff [hm_simps]: "hm_contains_key m k \<longleftrightarrow> k \<in> dom (hm_get m)"
  by (auto simp: hm_contains_key_def)

lemma hm_entries_iff: "hm_wf m \<Longrightarrow> (k, v) \<in> set (hm_entries m) \<longleftrightarrow> hm_get m k = Some v"
  by (auto simp: hm_wf_def hm_entries_def hm_get_def)

lemma hm_get_in_entries: "hm_get m k = Some v \<Longrightarrow> (k, v) \<in> set (hm_entries m)"
  by (simp add: hm_get_def hm_entries_def map_of_SomeD)

lemma hm_wf_Nil [simp]: "hm_wf []"
  by (simp add: hm_wf_def)

lemma hm_wf_insert [simp]: "hm_wf m \<Longrightarrow> hm_wf (hm_insert k v m)"
  by (simp add: hm_wf_def hm_insert_def distinct_update)

lemma hm_wf_remove [simp]: "hm_wf m \<Longrightarrow> hm_wf (hm_remove k m)"
  by (simp add: hm_wf_def hm_remove_def distinct_delete)

interpretation hm: hash_table hm_get hm_insert hm_remove hm_entries hm_wf
  by unfold_locales (simp_all add: hm_entries_iff, simp add: hm_wf_def hm_entries_def)

section \<open>Code that changes state and may panic\<close>

text \<open>
  An action over a state \<open>'s\<close> returns \<open>Some\<close> result, or \<open>None\<close> when the task it runs in
  panics (an \<open>unwrap\<close> of \<open>None\<close>, an arithmetic overflow); either way it returns the state as
  it is at that moment, because a panicking task keeps what it has written.
\<close>

type_synonym ('s, 'a) act = "'s \<Rightarrow> 'a option \<times> 's"

definition act_ret :: "'a \<Rightarrow> ('s, 'a) act" where
  "act_ret x = (\<lambda>s. (Some x, s))"

definition act_panic :: "('s, 'a) act" where
  "act_panic = (\<lambda>s. (None, s))"

definition act_bind :: "('s, 'a) act \<Rightarrow> ('a \<Rightarrow> ('s, 'b) act) \<Rightarrow> ('s, 'b) act" where
  "act_bind m f = (\<lambda>s. case m s of (None, s') \<Rightarrow> (None, s') | (Some x, s') \<Rightarrow> f x s')"

definition act_seq :: "('s, 'a) act \<Rightarrow> ('s, 'b) act \<Rightarrow> ('s, 'b) act" where
  "act_seq m n = act_bind m (\<lambda>_. n)"

definition act_get :: "('s \<Rightarrow> ('s, 'a) act) \<Rightarrow> ('s, 'a) act" where
  "act_get f = (\<lambda>s. f s s)"

definition act_modify :: "('s \<Rightarrow> 's) \<Rightarrow> ('s, unit) act" where
  "act_modify f = (\<lambda>s. (Some (), f s))"

text \<open>\<open>unwrap\<close>: go on with the value of a \<open>Some\<close>, panic on \<open>None\<close>.\<close>

definition act_unwrap :: "'a option \<Rightarrow> ('a \<Rightarrow> ('s, 'b) act) \<Rightarrow> ('s, 'b) act" where
  "act_unwrap x f = (case x of None \<Rightarrow> act_panic | Some y \<Rightarrow> f y)"

definition act_when :: "bool \<Rightarrow> ('s, unit) act \<Rightarrow> ('s, unit) act" where
  "act_when c m = (if c then m else act_ret ())"

primrec act_for :: "'x list \<Rightarrow> ('x \<Rightarrow> ('s, unit) act) \<Rightarrow> ('s, unit) act" where
  "act_for [] f = act_ret ()"
| "act_for (x # xs) f = act_seq (f x) (act_for xs f)"

lemmas act_defs = act_ret_def act_panic_def act_bind_def act_seq_def act_get_def act_modify_def
  act_unwrap_def act_when_def

text \<open>An invariant is kept by an action whether or not the action panics.\<close>

definition preserves :: "('s \<Rightarrow> bool) \<Rightarrow> ('s, 'a) act \<Rightarrow> bool" where
  "preserves I m \<longleftrightarrow> (\<forall>s. I s \<longrightarrow> I (snd (m s)))"

lemma preservesI: "(\<And>s. I s \<Longrightarrow> I (snd (m s))) \<Longrightarrow> preserves I m"
  by (simp add: preserves_def)

lemma preservesD: "preserves I m \<Longrightarrow> I s \<Longrightarrow> I (snd (m s))"
  by (simp add: preserves_def)

lemma preserves_ret [preserve]: "preserves I (act_ret x)"
  by (simp add: preserves_def act_ret_def)

lemma preserves_panic [preserve]: "preserves I act_panic"
  by (simp add: preserves_def act_panic_def)

lemma preserves_bind [preserve]:
  "preserves I m \<Longrightarrow> (\<And>x. preserves I (f x)) \<Longrightarrow> preserves I (act_bind m f)"
  by (rule preservesI, drule (1) preservesD)
    (auto simp: act_bind_def split: prod.split option.split intro: preservesD)

lemma preserves_seq [preserve]: "preserves I m \<Longrightarrow> preserves I n \<Longrightarrow> preserves I (act_seq m n)"
  by (simp add: act_seq_def preserves_bind)

lemma preserves_get [preserve]: "(\<And>s. I s \<Longrightarrow> preserves I (f s)) \<Longrightarrow> preserves I (act_get f)"
  by (simp add: preserves_def act_get_def)

lemma preserves_unwrap [preserve]: "(\<And>y. x = Some y \<Longrightarrow> preserves I (f y)) \<Longrightarrow> preserves I (act_unwrap x f)"
  by (auto simp: act_unwrap_def preserves_panic split: option.split)

lemma preserves_when [preserve]: "(c \<Longrightarrow> preserves I m) \<Longrightarrow> preserves I (act_when c m)"
  by (simp add: act_when_def preserves_ret)

lemma preserves_if [preserve]:
  "(c \<Longrightarrow> preserves I m) \<Longrightarrow> (\<not> c \<Longrightarrow> preserves I n) \<Longrightarrow> preserves I (if c then m else n)"
  by simp

lemma preserves_case_option [preserve]:
  "(x = None \<Longrightarrow> preserves I m) \<Longrightarrow> (\<And>y. x = Some y \<Longrightarrow> preserves I (f y)) \<Longrightarrow>
    preserves I (case x of None \<Rightarrow> m | Some y \<Rightarrow> f y)"
  by (simp split: option.split)

lemma preserves_case_prod [preserve]:
  "(\<And>a b. x = (a, b) \<Longrightarrow> preserves I (f a b)) \<Longrightarrow> preserves I (case x of (a, b) \<Rightarrow> f a b)"
  by (simp split: prod.split)

lemma preserves_for [preserve]:
  "(\<And>x. x \<in> set xs \<Longrightarrow> preserves I (f x)) \<Longrightarrow> preserves I (act_for xs f)"
  by (induction xs) (auto intro: preserve)

lemma preserves_modify: "(\<And>s. I s \<Longrightarrow> I (g s)) \<Longrightarrow> preserves I (act_modify g)"
  by (simp add: preserves_def act_modify_def)

end
