(* ===== verification/Byte_Buffer.thy ===== *)
theory Byte_Buffer
  imports Prelude
begin

text \<open>
  The byte buffer the codec and the signatures are written to and read from. A
  \<open>BytesMut\<close> is the list of its bytes; \<open>put_u16\<close> and \<open>put_u64\<close> append a number in big-endian
  order, \<open>put_slice\<close> appends bytes as they are, and the \<open>get\<close> operations take bytes off the
  front and panic (\<open>None\<close>) when too few are left. These are the documented operations of the
  \<open>bytes\<close> crate. The codec's proofs use them through the laws of the locales
  \<open>stream_codec\<close> and \<open>field_codec\<close> only.
\<close>

type_synonym 'a reader = "u8 list \<Rightarrow> ('a \<times> u8 list) option"

section \<open>Operations\<close>

definition put_be :: "nat \<Rightarrow> 'a::len word \<Rightarrow> u8 list" where
  "put_be n w = map (\<lambda>i. ucast (drop_bit (8 * i) w)) (rev [0..<n])"

definition be_value :: "u8 list \<Rightarrow> 'a::len word" where
  "be_value bs = foldl (\<lambda>acc b. or (push_bit 8 acc) (ucast b)) 0 bs"

definition get_be :: "nat \<Rightarrow> 'a::len word reader" where
  "get_be n bs = (if length bs < n then None else Some (be_value (take n bs), drop n bs))"

definition put_u8 :: "u8 \<Rightarrow> u8 list" where
  "put_u8 b = [b]"

definition put_u16 :: "u16 \<Rightarrow> u8 list" where
  "put_u16 w = put_be 2 w"

definition put_u64 :: "u64 \<Rightarrow> u8 list" where
  "put_u64 w = put_be 8 w"

definition get_u8 :: "u8 reader" where
  "get_u8 bs = (case bs of [] \<Rightarrow> None | b # rest \<Rightarrow> Some (b, rest))"

definition get_u16 :: "u16 reader" where
  "get_u16 = get_be 2"

definition put_u32 :: "32 word \<Rightarrow> u8 list" where
  "put_u32 w = put_be 4 w"

definition get_u32 :: "32 word reader" where
  "get_u32 = get_be 4"

definition get_u64 :: "u64 reader" where
  "get_u64 = get_be 8"

text \<open>\<open>for _ in 0..n { v.push(get(src)) }\<close>: read \<open>n\<close> items one after another.\<close>

fun get_many :: "'a reader \<Rightarrow> nat \<Rightarrow> 'a list reader" where
  "get_many get 0 bs = Some ([], bs)"
| "get_many get (Suc n) bs = do {
     (x, bs1) \<leftarrow> get bs;
     (xs, bs2) \<leftarrow> get_many get n bs1;
     Some (x # xs, bs2)
   }"

text \<open>An array of bytes read one by one, as \<open>decode_key\<close> and \<open>decode_signature\<close> do.\<close>

definition put_array :: "'n::len byte_array \<Rightarrow> u8 list" where
  "put_array a = bytes_of a"

definition get_array :: "'n::len byte_array reader" where
  "get_array bs = do {
     (xs, rest) \<leftarrow> get_many get_u8 LENGTH('n) bs;
     Some (byte_array_of xs, rest)
   }"

section \<open>Interfaces\<close>

text \<open>A writer and a reader of values that undo each other, whatever follows in the buffer.\<close>

locale stream_codec =
  fixes put :: "'a \<Rightarrow> u8 list"
    and get :: "'a reader"
    and ok :: "'a \<Rightarrow> bool"
  assumes get_put: "ok x \<Longrightarrow> get (put x @ rest) = Some (x, rest)"
begin

lemma get_put_only: "ok x \<Longrightarrow> get (put x) = Some (x, [])"
  using get_put [of x "[]"] by simp

lemma get_many_put:
  "list_all ok xs \<Longrightarrow> get_many get (length xs) (concat (map put xs) @ rest) = Some (xs, rest)"
  by (induction xs) (simp_all add: get_put)

lemma put_inj: "ok x \<Longrightarrow> ok y \<Longrightarrow> put x = put y \<Longrightarrow> x = y"
  using get_put_only by (metis option.inject prod.inject)

end

text \<open>A field of a fixed number of bytes, all of whose values can be written.\<close>

locale field_codec = stream_codec put get "\<lambda>_. True"
  for put :: "'a \<Rightarrow> u8 list" and get :: "'a reader" +
  fixes width :: nat
  assumes length_put: "length (put x) = width"
    and get_short: "length bs < width \<Longrightarrow> get bs = None"
    and get_enough: "width \<le> length bs \<Longrightarrow> \<exists>x. get bs = Some (x, drop width bs)"
begin

lemma get_None_iff: "get bs = None \<longleftrightarrow> length bs < width"
  using get_short [of bs] get_enough [of bs] by (cases "length bs < width") auto

lemma get_SomeD: "get bs = Some (x, rest) \<Longrightarrow> width \<le> length bs \<and> rest = drop width bs"
  using get_short [of bs] get_enough [of bs] by (cases "length bs < width") auto

lemma length_concat_put: "length (concat (map put xs)) = length xs * width"
  by (induction xs) (simp_all add: length_put)

lemma get_many_all:
  "get_many get (length xs) (concat (map put xs) @ rest) = Some (xs, rest)"
  by (rule get_many_put) (simp add: list_all_iff)

lemma get_many_enough:
  "n * width \<le> length bs \<Longrightarrow>
    \<exists>xs. length xs = n \<and> get_many get n bs = Some (xs, drop (n * width) bs)"
proof (induction n arbitrary: bs)
  case 0
  then show ?case by simp
next
  case (Suc n)
  then obtain x where x: "get bs = Some (x, drop width bs)"
    using get_enough [of bs] by auto
  from Suc.prems have "n * width \<le> length (drop width bs)" by simp
  then obtain xs where "length xs = n"
    and "get_many get n (drop width bs) = Some (xs, drop (n * width) (drop width bs))"
    using Suc.IH by blast
  with x show ?case by (simp add: add.commute)
qed

lemma get_many_short: "length bs < n * width \<Longrightarrow> get_many get n bs = None"
proof (induction n arbitrary: bs)
  case 0
  then show ?case by simp
next
  case (Suc n)
  show ?case
  proof (cases "length bs < width")
    case True
    then show ?thesis by (simp add: get_short)
  next
    case False
    then obtain x where "get bs = Some (x, drop width bs)"
      using get_enough [of bs] by auto
    moreover have "get_many get n (drop width bs) = None"
      using Suc False by simp
    ultimately show ?thesis by simp
  qed
qed

lemma get_many_SomeD:
  "get_many get n bs = Some (xs, rest) \<Longrightarrow>
    length xs = n \<and> n * width \<le> length bs \<and> rest = drop (n * width) bs"
  using get_many_short [of bs n] get_many_enough [of n bs] by (cases "length bs < n * width") auto

end

section \<open>The operations meet the interfaces\<close>

lemma foldl_put_be:
  "foldl (\<lambda>acc b. or (push_bit 8 acc) (ucast b)) a (put_be n w) =
    or (push_bit (8 * n) a) (take_bit (8 * n) (w :: 'a::len word))"
proof (induction n arbitrary: a)
  case 0
  then show ?case by (simp add: put_be_def)
next
  case (Suc n)
  have byte: "(ucast (ucast (drop_bit (8 * n) w) :: u8) :: 'a word) = take_bit 8 (drop_bit (8 * n) w)"
    by (rule bit_word_eqI) (auto simp: bit_simps)
  have step: "put_be (Suc n) w = ucast (drop_bit (8 * n) w) # put_be n w"
    by (simp add: put_be_def)
  show ?case
    unfolding step by (simp add: Suc.IH byte)
      (rule bit_word_eqI, auto simp: bit_simps add.commute [of 8])
qed

lemma be_value_put_be:
  "LENGTH('a) \<le> 8 * n \<Longrightarrow> be_value (put_be n w) = (w :: 'a::len word)"
  by (simp add: be_value_def foldl_put_be take_bit_word_eq_self)

lemma length_put_be [simp]: "length (put_be n w) = n"
  by (simp add: put_be_def)

lemma get_put_be:
  "LENGTH('a) \<le> 8 * n \<Longrightarrow> get_be n (put_be n w @ rest) = Some (w :: 'a::len word, rest)"
  by (simp add: get_be_def be_value_put_be)

interpretation u8_field: field_codec put_u8 get_u8 1
  by unfold_locales (auto simp: put_u8_def get_u8_def split: list.splits)

interpretation u16_field: field_codec put_u16 get_u16 2
  by unfold_locales (simp_all add: put_u16_def get_u16_def get_put_be, simp_all add: get_be_def)

interpretation u32_field: field_codec put_u32 get_u32 4
  by unfold_locales (simp_all add: put_u32_def get_u32_def get_put_be, simp_all add: get_be_def)

interpretation u64_field: field_codec put_u64 get_u64 8
  by unfold_locales (simp_all add: put_u64_def get_u64_def get_put_be, simp_all add: get_be_def)

lemma concat_map_put_u8: "concat (map put_u8 xs) = xs"
  by (induction xs) (simp_all add: put_u8_def)

lemma get_many_u8: "n \<le> length bs \<Longrightarrow> get_many get_u8 n bs = Some (take n bs, drop n bs)"
  using u8_field.get_many_all [of "take n bs" "drop n bs"] by (simp add: concat_map_put_u8)

lemma get_array_enough:
  "LENGTH('n) \<le> length bs \<Longrightarrow>
    get_array bs = Some (byte_array_of (take LENGTH('n) bs) :: 'n::len byte_array, drop LENGTH('n) bs)"
  by (simp add: get_array_def get_many_u8)

interpretation array_field: field_codec "put_array :: 'n::len byte_array \<Rightarrow> u8 list" get_array "LENGTH('n)"
proof unfold_locales
  fix x :: "'n byte_array" and rest
  show "get_array (put_array x @ rest) = Some (x, rest)"
    by (simp add: put_array_def get_array_enough)
next
  fix bs :: "u8 list"
  assume "length bs < LENGTH('n)"
  then show "(get_array bs :: ('n byte_array \<times> u8 list) option) = None"
    by (simp add: get_array_def u8_field.get_many_short)
qed (simp_all add: put_array_def get_array_enough)

end
