(* ===== verification/Tree_Root.thy ===== *)
theory Tree_Root
  imports Byte_Buffer
begin

text \<open>
  \<open>src/tree.rs\<close>: the root of the spanning tree with its order, the signature a node adds to an
  announcement, and the integer types of \<open>src/router.rs\<close> they are made of.
\<close>

type_synonym port = u64
type_synonym sequence_number = u64
type_synonym snek_path_id = u64
type_synonym public_key = "32 byte_array"
type_synonym signature = "64 byte_array"

section \<open>Root\<close>

datatype root = Root (root_public_key: public_key) (root_sequence_number: sequence_number)

datatype ordering = Less | Equal | Greater

text \<open>\<open>Ord::cmp\<close> of a type with a derived or built-in total order.\<close>

definition cmp :: "'a::linorder \<Rightarrow> 'a \<Rightarrow> ordering" where
  "cmp a b = (if a < b then Less else if a = b then Equal else Greater)"

definition root_partial_cmp :: "root \<Rightarrow> root \<Rightarrow> ordering option" where
  "root_partial_cmp a b =
     (let key = cmp (root_public_key a) (root_public_key b)
      in if key \<noteq> Equal then Some key
         else Some (cmp (root_sequence_number a) (root_sequence_number b)))"

text \<open>\<open>Ord::cmp\<close> unwraps the partial comparison; \<open>None\<close> is the panic of its \<open>expect\<close>.\<close>

definition root_cmp :: "root \<Rightarrow> root \<Rightarrow> ordering option" where
  "root_cmp a b = root_partial_cmp a b"

text \<open>The operators \<open><\<close> and \<open><=\<close> on \<open>Root\<close> are Rust's, derived from \<open>partial_cmp\<close>.\<close>

instantiation root :: linorder
begin

definition less_root :: "root \<Rightarrow> root \<Rightarrow> bool" where
  "a < b \<longleftrightarrow> root_partial_cmp a b = Some Less"

definition less_eq_root :: "root \<Rightarrow> root \<Rightarrow> bool" where
  "a \<le> b \<longleftrightarrow> root_partial_cmp a b = Some Less \<or> root_partial_cmp a b = Some Equal"

instance
proof
  fix a b c :: root
  show "a < b \<longleftrightarrow> a \<le> b \<and> \<not> b \<le> a"
    by (auto simp: less_root_def less_eq_root_def root_partial_cmp_def cmp_def split: if_splits)
  show "a \<le> a"
    by (simp add: less_eq_root_def root_partial_cmp_def cmp_def)
  show "a \<le> b \<Longrightarrow> b \<le> c \<Longrightarrow> a \<le> c"
    by (auto simp: less_eq_root_def root_partial_cmp_def cmp_def split: if_splits)
  show "a \<le> b \<Longrightarrow> b \<le> a \<Longrightarrow> a = b"
    by (cases a; cases b)
      (auto simp: less_eq_root_def root_partial_cmp_def cmp_def split: if_splits)
  show "a \<le> b \<or> b \<le> a"
    by (auto simp: less_eq_root_def root_partial_cmp_def cmp_def split: if_splits)
qed

end

lemma root_less_iff:
  "a < b \<longleftrightarrow> root_public_key a < root_public_key b \<or>
     root_public_key a = root_public_key b \<and> root_sequence_number a < root_sequence_number b"
  by (auto simp: less_root_def root_partial_cmp_def cmp_def split: if_splits)

lemma root_less_Root [simp]: "Root k s < Root k' s' \<longleftrightarrow> k < k' \<or> k = k' \<and> s < s'"
  by (simp add: root_less_iff)

lemma root_le_public_key: "a \<le> b \<Longrightarrow> root_public_key a \<le> root_public_key b"
  by (auto simp: le_less root_less_iff)

text \<open>
  Comparing roots never fails, and \<open>cmp\<close> agrees with equality of the fields: it is
  \<open>Less\<close> exactly when the key is smaller, or the keys are equal and the sequence number is
  smaller, \<open>Equal\<close> exactly for equal roots, and reversed by swapping its arguments. So the
  choice of the strongest root among announcements is well defined.
\<close>

lemma root_cmp_total:
  "(\<exists>ord. root_cmp a b = Some ord) \<and>
   (root_cmp a b = Some Less \<longleftrightarrow> root_public_key a < root_public_key b \<or>
     root_public_key a = root_public_key b \<and> root_sequence_number a < root_sequence_number b) \<and>
   (root_cmp a b = Some Equal \<longleftrightarrow> a = b) \<and>
   (root_cmp a b = Some Greater \<longleftrightarrow> root_cmp b a = Some Less)"
  by (cases a; cases b) (auto simp: root_cmp_def root_partial_cmp_def cmp_def)

section \<open>Signatures\<close>

record root_announcement_signature =
  signing_public_key :: public_key
  destination_port :: port
  sig_bytes :: signature

text \<open>How the codec and the signed message lay out a root and a signature.\<close>

definition put_root :: "root \<Rightarrow> u8 list" where
  "put_root r = put_array (root_public_key r) @ put_u64 (root_sequence_number r)"

definition put_signature :: "root_announcement_signature \<Rightarrow> u8 list" where
  "put_signature s = put_array (signing_public_key s) @ put_u64 (destination_port s) @ put_array (sig_bytes s)"

end
