(* ===== verification/Coordinates.thy ===== *)
theory Coordinates
  imports Tree_Root "HOL-Library.Sublist"
begin

text \<open>
  \<open>src/coordinates.rs\<close>: a node's coordinates are the ports on the way from the root down to it.
  The distance of two nodes is the number of tree edges between them. The lemmas show that
  the index loop of the code computes the longest common prefix and that the distance is a
  metric; greedy routing in \<open>Router_Tree\<close> rests on that.
\<close>

type_synonym coordinates = "port list"

section \<open>Definitions\<close>

text \<open>The loop \<open>for i in 0..l\<close>, which stops at the first difference.\<close>

fun common_prefix_loop :: "coordinates \<Rightarrow> coordinates \<Rightarrow> nat list \<Rightarrow> nat \<Rightarrow> nat" where
  "common_prefix_loop a b [] c = c"
| "common_prefix_loop a b (i # is) c =
     (if a ! i \<noteq> b ! i then c else common_prefix_loop a b is (c + 1))"

definition get_common_prefix :: "coordinates \<Rightarrow> coordinates \<Rightarrow> nat" where
  "get_common_prefix a b =
     (let l = (if length b < length a then length b else length a)
      in common_prefix_loop a b [0..<l] 0)"

definition distance_to :: "coordinates \<Rightarrow> coordinates \<Rightarrow> nat" where
  "distance_to a b = length a + length b - 2 * get_common_prefix a b"

section \<open>The loop is the longest common prefix\<close>

lemma common_prefix_loop_shift:
  "common_prefix_loop (x # a) (y # b) (map Suc is) c = common_prefix_loop a b is c"
  by (induction "is" arbitrary: c) auto

lemma common_prefix_loop_acc: "common_prefix_loop a b is c = c + common_prefix_loop a b is 0"
proof (induction "is" arbitrary: c)
  case Nil
  then show ?case by simp
next
  case (Cons i "is")
  show ?case
    using Cons [of "c + 1"] Cons [of 1] by auto
qed

lemma common_prefix_loop_eq:
  "common_prefix_loop a b [0..<min (length a) (length b)] 0 = length (longest_common_prefix a b)"
proof (induction a b rule: longest_common_prefix.induct)
  case (1 x xs y ys)
  have upt: "[0..<min (length (x # xs)) (length (y # ys))] = 0 # map Suc [0..<min (length xs) (length ys)]"
    by (simp add: map_Suc_upt upt_conv_Cons del: upt_Suc)
  show ?case
    unfolding upt using 1
    by (auto simp: common_prefix_loop_shift common_prefix_loop_acc [of _ _ _ "Suc 0"])
qed auto

lemma get_common_prefix_eq: "get_common_prefix a b = length (longest_common_prefix a b)"
proof -
  have "(if length b < length a then length b else length a) = min (length a) (length b)"
    by auto
  then show ?thesis
    by (simp add: get_common_prefix_def Let_def common_prefix_loop_eq)
qed

lemma lcp_le: "length (longest_common_prefix a b) \<le> length a" "length (longest_common_prefix a b) \<le> length b"
  by (simp_all add: prefix_length_le longest_common_prefix_prefix1 longest_common_prefix_prefix2)

lemma lcp_commute: "longest_common_prefix a b = longest_common_prefix b a"
  by (induction a b rule: longest_common_prefix.induct) auto

lemma lcp_self [simp]: "longest_common_prefix a a = a"
  by (induction a) auto

lemma lcp_full: "length (longest_common_prefix a b) = length a \<Longrightarrow> prefix a b"
  by (metis append_eq_append_conv append_Nil2 longest_common_prefix_prefix1
      longest_common_prefix_prefix2 prefix_def)

lemma lcp_min:
  "min (length (longest_common_prefix a b)) (length (longest_common_prefix b c))
    \<le> length (longest_common_prefix a c)"
proof (cases "length (longest_common_prefix a b) \<le> length (longest_common_prefix b c)")
  case True
  then have "prefix (longest_common_prefix a b) (longest_common_prefix b c)"
    using longest_common_prefix_prefix1 longest_common_prefix_prefix2 prefix_length_prefix by blast
  then have "prefix (longest_common_prefix a b) (longest_common_prefix a c)"
    by (meson longest_common_prefix_max_prefix longest_common_prefix_prefix1
        longest_common_prefix_prefix2 prefix_order.trans)
  then show ?thesis by (simp add: min.coboundedI1 prefix_length_le)
next
  case False
  then have "prefix (longest_common_prefix b c) (longest_common_prefix a b)"
    using longest_common_prefix_prefix1 longest_common_prefix_prefix2 prefix_length_prefix
    by (metis nle_le)
  then have "prefix (longest_common_prefix b c) (longest_common_prefix a c)"
    by (meson longest_common_prefix_max_prefix longest_common_prefix_prefix1
        longest_common_prefix_prefix2 prefix_order.trans)
  then show ?thesis by (simp add: min.coboundedI2 prefix_length_le)
qed

lemma lcp_lower:
  "length (longest_common_prefix a b) + length (longest_common_prefix b c)
    \<le> length b + length (longest_common_prefix a c)"
  using lcp_min [of a b c] lcp_le(2) [of a b] lcp_le(1) [of b c] by (auto simp: min_def split: if_splits)

section \<open>The distance is a metric\<close>

lemma distance_to_eq:
  "distance_to a b + 2 * length (longest_common_prefix a b) = length a + length b"
  using lcp_le [of a b] by (simp add: distance_to_def get_common_prefix_eq)

lemma distance_to_self [simp]: "distance_to a a = 0"
  using distance_to_eq [of a a] by simp

lemma distance_to_commute: "distance_to a b = distance_to b a"
  using distance_to_eq [of a b] distance_to_eq [of b a] lcp_commute [of a b] by simp

lemma distance_to_0_iff: "distance_to a b = 0 \<longleftrightarrow> a = b"
proof
  assume "distance_to a b = 0"
  then have "length (longest_common_prefix a b) = length a" and "length (longest_common_prefix a b) = length b"
    using distance_to_eq [of a b] lcp_le [of a b] by auto
  then show "a = b"
    using lcp_full [of a b] lcp_full [of b a] lcp_commute [of a b]
    by (simp add: prefix_order.eq_iff)
qed simp

lemma distance_to_triangle: "distance_to a c \<le> distance_to a b + distance_to b c"
  using distance_to_eq [of a b] distance_to_eq [of b c] distance_to_eq [of a c] lcp_lower [of a b c]
  by linarith

text \<open>
  The coordinate distance is a metric computed without underflow: the subtraction never
  goes below zero, the distance is zero exactly between equal coordinates, it is symmetric,
  it satisfies the triangle inequality, and it counts the steps up to and down from the
  longest common prefix.
\<close>

theorem distance_to_metric:
  "2 * get_common_prefix a b \<le> length a + length b \<and>
   (distance_to a b = 0 \<longleftrightarrow> a = b) \<and>
   distance_to a b = distance_to b a \<and>
   distance_to a c \<le> distance_to a b + distance_to b c \<and>
   get_common_prefix a b = length (longest_common_prefix a b)"
  using lcp_le [of a b] distance_to_0_iff [of a b] distance_to_commute [of a b]
    distance_to_triangle [of a c b]
  by (simp add: get_common_prefix_eq)

text \<open>A step along a tree edge changes the distance by one.\<close>

lemma distance_to_parent_closer:
  assumes "c \<noteq> []" and "\<not> prefix c d"
  shows "distance_to (butlast c) d + 1 = distance_to c d"
proof -
  have le: "length (longest_common_prefix c d) < length c"
    using assms(2) lcp_full [of c d] lcp_le(1) [of c d] by fastforce
  have "longest_common_prefix (butlast c) d = longest_common_prefix c d"
    using le
  proof (induction c d rule: longest_common_prefix.induct)
    case (1 x xs y ys)
    then show ?case by (cases xs) auto
  qed auto
  then show ?thesis
    using distance_to_eq [of "butlast c" d] distance_to_eq [of c d] assms(1) le
    by (cases c) auto
qed

lemma distance_to_child_closer: "distance_to (c @ [p]) (c @ p # d) + 1 = distance_to c (c @ p # d)"
proof -
  have "longest_common_prefix (c @ [p]) (c @ p # d) = c @ [p]"
    by (induction c) auto
  moreover have "longest_common_prefix c (c @ p # d) = c"
    by (induction c) auto
  ultimately show ?thesis
    using distance_to_eq [of "c @ [p]" "c @ p # d"] distance_to_eq [of c "c @ p # d"] by simp
qed

end
