(* ===== verification/Frames.thy ===== *)
theory Frames
  imports Coordinates
begin

text \<open>
  \<open>src/frames.rs\<close>, \<open>src/error.rs\<close> and the part of \<open>src/coordinates.rs\<close> that reads coordinates
  off an announcement: the frames nodes exchange, how a node signs an announcement and how
  its receiver checks it. The lemmas show what \<open>is_clean\<close> accepts and that the announcements
  honest nodes build are accepted.
\<close>

section \<open>Frames and errors\<close>

datatype router_error =
    ConnectionClosed
  | MissingSignature
  | InvalidFrame
  | DecodingError string
  | EncodingError string
  | SessionAlreadyExists

record tree_announcement =
  ann_root :: root
  ann_signatures :: "root_announcement_signature list"
  ann_receive_time :: system_time
  ann_receive_order :: sequence_number

record snek_packet =
  sp_destination_key :: public_key
  sp_source_key :: public_key
  sp_payload :: "u8 list"

record tree_packet =
  tp_source_coordinates :: coordinates
  tp_destination_coordinates :: coordinates
  tp_payload :: "u8 list"

record snek_bootstrap =
  sb_root :: root
  sb_destination_key :: public_key
  sb_source :: coordinates
  sb_path_id :: snek_path_id

record snek_bootstrap_ack =
  ba_destination_coordinates :: coordinates
  ba_destination_key :: public_key
  ba_source_coordinates :: coordinates
  ba_source_key :: public_key
  ba_root :: root
  ba_path_id :: snek_path_id

record snek_setup =
  su_root :: root
  su_destination :: coordinates
  su_destination_key :: public_key
  su_source_key :: public_key
  su_path_id :: snek_path_id

record snek_setup_ack =
  sa_root :: root
  sa_destination_key :: public_key
  sa_path_id :: snek_path_id

record snek_teardown =
  td_root :: root
  td_destination_key :: public_key
  td_path_id :: snek_path_id

datatype frame =
    TreeRouted tree_packet
  | SnekRouted snek_packet
  | TreeAnnouncement tree_announcement
  | SnekBootstrap snek_bootstrap
  | SnekBootstrapACK snek_bootstrap_ack
  | SnekSetup snek_setup
  | SnekSetupACK snek_setup_ack
  | SnekTeardown snek_teardown

section \<open>Signatures\<close>

text \<open>
  The \<open>ed25519_consensus\<close> crate is a parameter: the public key of a signing key, signing,
  whether the bytes of a key are a valid public key (\<open>VerificationKey::try_from\<close>), and
  verification. A signature is its 64 bytes, which is what the crate converts it to and from.
\<close>

type_synonym signing_key = "32 byte_array"

record crypto =
  verification_key :: "signing_key \<Rightarrow> public_key"
  sign :: "signing_key \<Rightarrow> u8 list \<Rightarrow> signature"
  key_parses :: "public_key \<Rightarrow> bool"
  verify :: "public_key \<Rightarrow> signature \<Rightarrow> u8 list \<Rightarrow> bool"

text \<open>The documented behaviour of the crate: a signature verifies under its signer's key.\<close>

definition crypto_correct :: "crypto \<Rightarrow> bool" where
  "crypto_correct C \<longleftrightarrow>
     (\<forall>sk msg. key_parses C (verification_key C sk) \<and>
        verify C (verification_key C sk) (sign C sk msg) msg)"

text \<open>The bytes a node signs: all that came before, its own key and the port it announces to.\<close>

definition signed_bytes :: "root \<Rightarrow> root_announcement_signature list \<Rightarrow> public_key \<Rightarrow> port \<Rightarrow> u8 list" where
  "signed_bytes r sigs key p = put_root r @ concat (map put_signature sigs) @ put_array key @ put_u64 p"

definition append_signature :: "crypto \<Rightarrow> tree_announcement \<Rightarrow> signing_key \<Rightarrow> port \<Rightarrow> tree_announcement" where
  "append_signature C a keypair p =
     (let pk = verification_key C keypair;
          unsigned = signed_bytes (ann_root a) (ann_signatures a) pk p;
          sg = sign C keypair unsigned
      in a\<lparr>ann_signatures := ann_signatures a @
           [\<lparr>signing_public_key = pk, destination_port = p, sig_bytes = sg\<rparr>]\<rparr>)"

section \<open>Checking an announcement\<close>

text \<open>The two index loops over \<open>0..len - 1\<close>, that is, over all signatures but the last.\<close>

definition loop_detected :: "root_announcement_signature list \<Rightarrow> bool" where
  "loop_detected sigs =
     list_ex (\<lambda>i. list_ex (\<lambda>j. i \<noteq> j \<and>
         signing_public_key (sigs ! i) = signing_public_key (sigs ! j))
       [0..<length sigs - 1]) [0..<length sigs - 1]"

fun verify_signatures :: "crypto \<Rightarrow> u8 list \<Rightarrow> root_announcement_signature list \<Rightarrow> bool" where
  "verify_signatures C to_verify [] = True"
| "verify_signatures C to_verify (sig # sigs) =
     (let tv = to_verify @ put_array (signing_public_key sig) @ put_u64 (destination_port sig)
      in if key_parses C (signing_public_key sig) then
           (if verify C (signing_public_key sig) (sig_bytes sig) tv
            then verify_signatures C (tv @ put_array (sig_bytes sig)) sigs
            else False)
         else False)"

text \<open>\<open>signatures.get(0).unwrap()\<close> panics on an announcement without signatures.\<close>

definition is_clean :: "crypto \<Rightarrow> tree_announcement \<Rightarrow> public_key \<Rightarrow> bool option" where
  "is_clean C a peer =
     (case ann_signatures a of
        [] \<Rightarrow> None
      | first # _ \<Rightarrow>
          if root_public_key (ann_root a) \<noteq> signing_public_key first then Some False
          else if peer \<noteq> signing_public_key (last (ann_signatures a)) then Some False
          else if list_ex (\<lambda>s. destination_port s = 0) (ann_signatures a) then Some False
          else if loop_detected (ann_signatures a) then Some False
          else Some (verify_signatures C (put_root (ann_root a)) (ann_signatures a)))"

definition is_loop_of_child :: "tree_announcement \<Rightarrow> public_key \<Rightarrow> bool" where
  "is_loop_of_child a key = list_ex (\<lambda>s. signing_public_key s = key) (ann_signatures a)"

definition replayed_old_sequence :: "tree_announcement \<Rightarrow> tree_announcement \<Rightarrow> bool" where
  "replayed_old_sequence a before =
     (if root_sequence_number (ann_root a) < root_sequence_number (ann_root before) then True else False)"

definition replayed_current_sequence :: "tree_announcement \<Rightarrow> tree_announcement \<Rightarrow> bool" where
  "replayed_current_sequence a before =
     (if root_sequence_number (ann_root a) = root_sequence_number (ann_root before) then True else False)"

definition has_same_root_key :: "tree_announcement \<Rightarrow> tree_announcement \<Rightarrow> bool" where
  "has_same_root_key a before =
     (if root_public_key (ann_root a) = root_public_key (ann_root before) then True else False)"

section \<open>Coordinates of an announcement\<close>

definition coords :: "tree_announcement \<Rightarrow> coordinates" where
  "coords a = map destination_port (ann_signatures a)"

text \<open>The range \<open>0..len - 1\<close> underflows, so the code panics, when there is no signature.\<close>

definition peer_coords :: "tree_announcement \<Rightarrow> coordinates option" where
  "peer_coords a =
     (if length (ann_signatures a) < 1 then None
      else Some (map (\<lambda>i. destination_port (ann_signatures a ! i)) [0..<length (ann_signatures a) - 1]))"

lemma peer_coords_eq:
  "peer_coords a = (if ann_signatures a = [] then None else Some (butlast (coords a)))"
proof -
  have "map (\<lambda>i. destination_port (ann_signatures a ! i)) [0..<length (ann_signatures a) - 1] =
      butlast (map destination_port (ann_signatures a))"
    by (rule nth_equalityI) (simp_all add: nth_butlast)
  then show ?thesis
    by (auto simp: peer_coords_def coords_def Suc_le_eq)
qed

section \<open>What a clean announcement is\<close>

lemma append_signature_simps [simp]:
  "ann_root (append_signature C a sk p) = ann_root a"
  "ann_receive_time (append_signature C a sk p) = ann_receive_time a"
  "ann_receive_order (append_signature C a sk p) = ann_receive_order a"
  "ann_signatures (append_signature C a sk p) = ann_signatures a @
     [\<lparr>signing_public_key = verification_key C sk, destination_port = p,
       sig_bytes = sign C sk (signed_bytes (ann_root a) (ann_signatures a) (verification_key C sk) p)\<rparr>]"
  by (simp_all add: append_signature_def Let_def)

lemma coords_append_signature: "coords (append_signature C a sk p) = coords a @ [p]"
  by (simp add: coords_def)

lemma loop_detected_iff:
  "loop_detected sigs \<longleftrightarrow> \<not> distinct (map signing_public_key (butlast sigs))"
  by (simp add: loop_detected_def list_ex_iff distinct_conv_nth nth_butlast Bex_def)

lemma verify_signatures_iff:
  "verify_signatures C pre sigs \<longleftrightarrow>
     (\<forall>i < length sigs. key_parses C (signing_public_key (sigs ! i)) \<and>
        verify C (signing_public_key (sigs ! i)) (sig_bytes (sigs ! i))
          (pre @ concat (map put_signature (take i sigs)) @
           put_array (signing_public_key (sigs ! i)) @ put_u64 (destination_port (sigs ! i))))"
  by (induction sigs arbitrary: pre)
    (auto simp: Let_def All_less_Suc2 put_signature_def)

text \<open>Every signature verifies over the bytes its signer signs when it appends it.\<close>

definition signatures_valid :: "crypto \<Rightarrow> root \<Rightarrow> root_announcement_signature list \<Rightarrow> bool" where
  "signatures_valid C r sigs \<longleftrightarrow>
     (\<forall>i < length sigs. key_parses C (signing_public_key (sigs ! i)) \<and>
        verify C (signing_public_key (sigs ! i)) (sig_bytes (sigs ! i))
          (signed_bytes r (take i sigs) (signing_public_key (sigs ! i)) (destination_port (sigs ! i))))"

lemma verify_signatures_valid:
  "verify_signatures C (put_root r) sigs \<longleftrightarrow> signatures_valid C r sigs"
  by (simp add: verify_signatures_iff signatures_valid_def signed_bytes_def)

lemma signatures_valid_append:
  "signatures_valid C r (sigs @ [s]) \<longleftrightarrow>
     signatures_valid C r sigs \<and> key_parses C (signing_public_key s) \<and>
     verify C (signing_public_key s) (sig_bytes s)
       (signed_bytes r sigs (signing_public_key s) (destination_port s))"
  by (auto simp: signatures_valid_def nth_append less_Suc_eq)

lemma is_clean_None_iff: "is_clean C a peer = None \<longleftrightarrow> ann_signatures a = []"
  by (auto simp: is_clean_def split: list.split)

lemma is_clean_True_nonempty: "is_clean C a peer = Some True \<Longrightarrow> ann_signatures a \<noteq> []"
  by (auto simp: is_clean_def split: list.splits)

lemma is_clean_True_iff:
  "is_clean C a peer = Some True \<longleftrightarrow>
      ann_signatures a \<noteq> [] \<and>
      signing_public_key (hd (ann_signatures a)) = root_public_key (ann_root a) \<and>
      signing_public_key (last (ann_signatures a)) = peer \<and>
      0 \<notin> set (coords a) \<and>
      distinct (map signing_public_key (butlast (ann_signatures a))) \<and>
      signatures_valid C (ann_root a) (ann_signatures a)"
  by (cases "ann_signatures a")
    (auto simp: is_clean_def loop_detected_iff verify_signatures_valid list_ex_iff coords_def
      simp del: butlast.simps verify_signatures.simps)
text \<open>
  C12: what an accepted announcement is. \<open>is_clean\<close> panics exactly on an announcement without
  signatures, and accepts one exactly when its first signer is the root, its last signer is
  the peer it came from, no port is zero, the signers before the last are distinct, and every
  signature verifies over the root and all signatures before it.
\<close>

theorem is_clean_correct:
  "(is_clean C a peer = None \<longleftrightarrow> ann_signatures a = []) \<and>
   (is_clean C a peer = Some True \<longleftrightarrow>
      ann_signatures a \<noteq> [] \<and>
      signing_public_key (hd (ann_signatures a)) = root_public_key (ann_root a) \<and>
      signing_public_key (last (ann_signatures a)) = peer \<and>
      0 \<notin> set (coords a) \<and>
      distinct (map signing_public_key (butlast (ann_signatures a))) \<and>
      signatures_valid C (ann_root a) (ann_signatures a))"
  using is_clean_None_iff is_clean_True_iff by blast

section \<open>Announcements along a path\<close>

text \<open>What the nodes of a path from the root build: each appends its signature and its port.\<close>

fun announce_along :: "crypto \<Rightarrow> tree_announcement \<Rightarrow> (signing_key \<times> port) list \<Rightarrow> tree_announcement" where
  "announce_along C a [] = a"
| "announce_along C a ((sk, p) # hops) = announce_along C (append_signature C a sk p) hops"

definition root_announcement :: "root \<Rightarrow> system_time \<Rightarrow> tree_announcement" where
  "root_announcement r t =
     \<lparr>ann_root = r, ann_signatures = [], ann_receive_time = t, ann_receive_order = 0\<rparr>"

lemma announce_along_root [simp]: "ann_root (announce_along C a hops) = ann_root a"
  by (induction C a hops rule: announce_along.induct) simp_all

lemma announce_along_keys:
  "map signing_public_key (ann_signatures (announce_along C a hops)) =
     map signing_public_key (ann_signatures a) @ map (verification_key C \<circ> fst) hops"
  by (induction C a hops rule: announce_along.induct) simp_all

lemma coords_announce_along: "coords (announce_along C a hops) = coords a @ map snd hops"
  by (induction C a hops rule: announce_along.induct) (simp_all add: coords_append_signature)

lemma append_signature_valid:
  "crypto_correct C \<Longrightarrow> signatures_valid C (ann_root a) (ann_signatures a) \<Longrightarrow>
    signatures_valid C (ann_root a) (ann_signatures (append_signature C a sk p))"
  by (simp add: signatures_valid_append crypto_correct_def)

lemma announce_along_valid:
  "crypto_correct C \<Longrightarrow> signatures_valid C (ann_root a) (ann_signatures a) \<Longrightarrow>
    signatures_valid C (ann_root a) (ann_signatures (announce_along C a hops))"
proof (induction C a hops rule: announce_along.induct)
  case (2 C a sk p hops)
  then show ?case
    using append_signature_valid [of C a sk p] by simp
qed simp

lemma root_announcement_simps [simp]:
  "ann_root (root_announcement r t) = r" "ann_signatures (root_announcement r t) = []"
  "coords (root_announcement r t) = []"
  by (simp_all add: root_announcement_def coords_def)

lemma announce_along_is_clean_iff:
  assumes "crypto_correct C" and "hops \<noteq> []"
  shows "is_clean C (announce_along C (root_announcement r t) hops) peer = Some True \<longleftrightarrow>
    verification_key C (fst (hd hops)) = root_public_key r \<and>
    verification_key C (fst (last hops)) = peer \<and>
    0 \<notin> snd ` set hops \<and>
    distinct (map (verification_key C \<circ> fst) (butlast hops))"
proof -
  let ?a = "announce_along C (root_announcement r t) hops"
  have keys: "map signing_public_key (ann_signatures ?a) = map (verification_key C \<circ> fst) hops"
    by (simp add: announce_along_keys)
  then have ne: "ann_signatures ?a \<noteq> []" using assms(2) by auto
  have "signatures_valid C r (ann_signatures ?a)"
    using announce_along_valid [OF assms(1), of "root_announcement r t" hops]
    by (simp add: signatures_valid_def)
  moreover have "signing_public_key (hd (ann_signatures ?a)) = verification_key C (fst (hd hops))"
    using ne assms(2) by (metis keys comp_apply hd_map)
  moreover have "signing_public_key (last (ann_signatures ?a)) = verification_key C (fst (last hops))"
    using ne assms(2) by (metis keys comp_apply last_map)
  moreover have "map signing_public_key (butlast (ann_signatures ?a)) =
      map (verification_key C \<circ> fst) (butlast hops)"
    by (simp add: map_butlast keys)
  moreover have "set (coords ?a) = snd ` set hops"
    by (simp add: coords_announce_along)
  ultimately show ?thesis
    by (auto simp: is_clean_True_iff ne)
qed

text \<open>
  Honest announcements are accepted. When the root and then each node on a loop-free path
  append their signatures with non-zero ports, the receiver's check of the announcement that
  comes from the last node succeeds, and the coordinates it reads off are the ports of the
  path.
\<close>

theorem honest_announcement_clean:
  assumes "crypto_correct C" and "hops \<noteq> []" and "0 \<notin> snd ` set hops"
    and "distinct (map (verification_key C \<circ> fst) hops)"
    and "root_public_key r = verification_key C (fst (hd hops))"
  shows "is_clean C (announce_along C (root_announcement r t) hops)
      (verification_key C (fst (last hops))) = Some True \<and>
    coords (announce_along C (root_announcement r t) hops) = map snd hops"
  using assms distinct_butlast [OF assms(4)]
  by (simp add: announce_along_is_clean_iff coords_announce_along map_butlast)

text \<open>A concrete crypto for examples: the public key is the signing key, all signatures verify.\<close>

definition example_crypto :: crypto where
  "example_crypto = \<lparr>verification_key = (\<lambda>sk. sk), sign = (\<lambda>sk msg. repeat_byte 0),
     key_parses = (\<lambda>k. True), verify = (\<lambda>k s msg. True)\<rparr>"

lemma example_crypto_correct [simp]: "crypto_correct example_crypto"
  by (simp add: crypto_correct_def example_crypto_def)

lemma example_crypto_simps [simp]:
  "verification_key example_crypto sk = sk" "sign example_crypto sk msg = repeat_byte 0"
  "key_parses example_crypto k" "verify example_crypto k s msg"
  by (simp_all add: example_crypto_def)

theorem honest_announcement_clean_witness:
  "is_clean example_crypto (announce_along example_crypto (root_announcement (Root (repeat_byte 9) 4) 0)
      [(repeat_byte 9, 2), (repeat_byte 5, 3)]) (repeat_byte 5) = Some True"
  using honest_announcement_clean [of example_crypto "[(repeat_byte 9, 2), (repeat_byte 5, 3)]"
      "Root (repeat_byte 9) 4" 0]
  by simp

text \<open>
  The loop check misses the last signer. An announcement that went from the root to a
  second node and back to the root again is accepted although it contains a loop, because
  both index loops stop before the last signature.
\<close>

theorem loop_through_last_signer_clean:
  assumes "crypto_correct C" and "p1 \<noteq> 0" and "p2 \<noteq> 0" and "p3 \<noteq> 0"
    and "verification_key C sk1 \<noteq> verification_key C sk2"
  shows "let a = announce_along C (root_announcement (Root (verification_key C sk1) n) t)
             [(sk1, p1), (sk2, p2), (sk1, p3)]
    in is_clean C a (verification_key C sk1) = Some True \<and>
       \<not> distinct (map signing_public_key (ann_signatures a))"
proof -
  let ?hops = "[(sk1, p1), (sk2, p2), (sk1, p3)]"
  have "is_clean C (announce_along C (root_announcement (Root (verification_key C sk1) n) t) ?hops)
      (verification_key C sk1) = Some True"
    using assms by (subst announce_along_is_clean_iff) auto
  then show ?thesis
    unfolding Let_def announce_along_keys by simp
qed

theorem loop_through_last_signer_clean_witness:
  "is_clean example_crypto (announce_along example_crypto (root_announcement (Root (repeat_byte 9) 4) 0)
      [(repeat_byte 9, 2), (repeat_byte 5, 3), (repeat_byte 9, 1)]) (repeat_byte 9) = Some True"
  using loop_through_last_signer_clean [of example_crypto 2 3 1 "repeat_byte 9" "repeat_byte 5" 4 0]
  by (simp add: Let_def)

end
