(* ===== verification/Snek.thy ===== *)
theory Snek
  imports Frames
begin

text \<open>
  \<open>src/snek.rs\<close>: the entries of the path table of the virtual snake, their index and its derived
  order, their expiry, and the destination key of the frames routed through it.
\<close>

datatype snek_path_index = Snek_Path_Index (pi_public_key: public_key) (pi_path_id: snek_path_id)

text \<open>The order Rust derives for the struct: field by field.\<close>

instantiation snek_path_index :: linorder
begin

definition less_snek_path_index :: "snek_path_index \<Rightarrow> snek_path_index \<Rightarrow> bool" where
  "a < b \<longleftrightarrow> pi_public_key a < pi_public_key b \<or>
     pi_public_key a = pi_public_key b \<and> pi_path_id a < pi_path_id b"

definition less_eq_snek_path_index :: "snek_path_index \<Rightarrow> snek_path_index \<Rightarrow> bool" where
  "a \<le> b \<longleftrightarrow> a < b \<or> a = (b :: snek_path_index)"

instance
proof
  fix x y :: snek_path_index
  show "x \<le> y \<or> y \<le> x"
    by (cases x; cases y) (auto simp: less_eq_snek_path_index_def less_snek_path_index_def)
qed (auto simp: less_eq_snek_path_index_def less_snek_path_index_def)

end

record snek_path =
  path_index :: snek_path_index
  path_origin :: public_key
  path_target :: public_key
  path_source :: port
  path_destination :: port
  path_last_seen :: system_time
  path_root :: root
  path_active :: bool

definition SNEK_EXPIRY_PERIOD :: duration where
  "SNEK_EXPIRY_PERIOD = from_secs (60 * 60)"

text \<open>\<open>elapsed().unwrap()\<close> panics when the entry is stamped later than the clock reads.\<close>

definition snek_path_valid :: "system_time \<Rightarrow> snek_path \<Rightarrow> bool option" where
  "snek_path_valid now p =
     (case duration_since now (path_last_seen p) of
        None \<Rightarrow> None
      | Some d \<Rightarrow> Some (d < SNEK_EXPIRY_PERIOD))"

lemma snek_path_valid_None_iff: "snek_path_valid now p = None \<longleftrightarrow> now < path_last_seen p"
  by (auto simp: snek_path_valid_def duration_since_def)

lemma snek_path_valid_Some_iff:
  "snek_path_valid now p = Some b \<longleftrightarrow>
     path_last_seen p \<le> now \<and> b = (now < path_last_seen p + SNEK_EXPIRY_PERIOD)"
  by (auto simp: snek_path_valid_def duration_since_def SNEK_EXPIRY_PERIOD_def from_secs_def)

text \<open>The frames of \<open>trait SnekRouted\<close>; other frames have no destination key of this kind.\<close>

fun snek_destination_key :: "frame \<Rightarrow> public_key option" where
  "snek_destination_key (SnekRouted p) = Some (sp_destination_key p)"
| "snek_destination_key (SnekSetup p) = Some (su_destination_key p)"
| "snek_destination_key (SnekBootstrap p) = Some (sb_destination_key p)"
| "snek_destination_key _ = None"

text \<open>The frames of \<open>trait TreeRouted\<close> of \<open>src/tree.rs\<close> and their destination coordinates.\<close>

fun tree_destination_coordinates :: "frame \<Rightarrow> coordinates option" where
  "tree_destination_coordinates (TreeRouted p) = Some (tp_destination_coordinates p)"
| "tree_destination_coordinates (SnekBootstrapACK p) = Some (ba_destination_coordinates p)"
| "tree_destination_coordinates (SnekSetup p) = Some (su_destination p)"
| "tree_destination_coordinates _ = None"

end
