(* ===== verification/Wait_Timer.thy ===== *)
theory Wait_Timer
  imports Prelude
begin

text \<open>\<open>src/wait_timer.rs\<close>: the timer that holds back re-parenting.\<close>

record wait_timer =
  last_time :: system_time
  timer_duration :: duration

definition new_wait_timer :: "system_time \<Rightarrow> duration \<Rightarrow> wait_timer" where
  "new_wait_timer now d = \<lparr>last_time = now, timer_duration = d\<rparr>"

definition is_expired :: "system_time \<Rightarrow> wait_timer \<Rightarrow> bool" where
  "is_expired now t =
     (case duration_since now (last_time t) of
        Some d \<Rightarrow> if timer_duration t < d then True else False
      | None \<Rightarrow> False)"

definition new_expired :: "system_time \<Rightarrow> wait_timer" where
  "new_expired now = \<lparr>last_time = now, timer_duration = 0\<rparr>"

lemma is_expired_iff: "is_expired now t \<longleftrightarrow> last_time t + timer_duration t < now"
  by (auto simp: is_expired_def duration_since_def)

lemma is_expired_mono: "is_expired now t \<Longrightarrow> now \<le> later \<Longrightarrow> is_expired later t"
  by (simp add: is_expired_iff)

end
