(* ===== verification/Router_State.thy ===== *)
theory Router_State
  imports Snek Wait_Timer
begin

text \<open>
  The state of a \<open>Router\<close> (\<open>src/router.rs\<close>) and its small operations: the port table, the
  counters, the timer, the current announcement with the root and the coordinates it gives,
  and sending. Handlers run one at a time on this state; a lock of the code protects one field
  for part of a handler. Spawned tasks are recorded and run as steps of their own. The lemmas
  show that the port table and its two lookups agree and that a new port is fresh.
\<close>

section \<open>State\<close>

definition ANNOUNCEMENT_TIMEOUT :: duration where
  "ANNOUNCEMENT_TIMEOUT = from_secs (45 * 60)"

definition REPARENT_WAIT_TIME :: duration where
  "REPARENT_WAIT_TIME = from_secs 1"

text \<open>A connection's sink or stream, known by a number; what it does is up to its owner.\<close>

type_synonym connection = nat

text \<open>
  Tasks spawned with \<open>tokio::spawn\<close>: sending a teardown for a path of the table, re-parenting
  (with or without waiting first), re-parenting after the wait, and the loop that polls a peer.
\<close>

datatype task =
    Send_Teardown port public_key snek_path_id
  | Reparent bool
  | Reparent_Waited
  | Peer_Loop public_key

record router_state =
  private_key :: signing_key
  public_key :: public_key
  running :: bool
  upload_connections :: "(public_key, connection) hash_map"
  download_connections :: "(public_key, connection) hash_map"
  ports :: "(port, public_key option) hash_map"
  parent :: public_key
  announcements :: "(public_key, tree_announcement) hash_map"
  sequence :: sequence_number
  ordering :: sequence_number
  reparent_timer :: "wait_timer option"
  ascending_path :: "snek_path option"
  descending_path :: "snek_path option"
  paths :: "(snek_path_index, snek_path) hash_map"
  candidate :: "snek_path option"
  sent :: "(public_key \<times> frame) list"
  delivered :: "frame list"
  spawned :: "task list"

text \<open>
  The last three fields record effects: the frames handed to the peers' sinks, the frames
  delivered to the local client, and the tasks spawned and not yet run. What the code takes
  from outside is an argument: the cryptography, the clock, a random number, what a sink
  answers to a frame (\<open>None\<close> for success) and whether the client still receives.
\<close>

record env =
  env_crypto :: crypto
  env_now :: system_time
  env_random :: u64
  env_sink_send :: "connection \<Rightarrow> frame \<Rightarrow> router_error option"
  env_local_open :: bool

type_synonym 'a router_act = "(router_state, 'a) act"

definition new_router :: "crypto \<Rightarrow> signing_key \<Rightarrow> router_state" where
  "new_router C key =
     \<lparr>private_key = key, public_key = verification_key C key, running = False,
      upload_connections = [], download_connections = [], ports = [],
      parent = verification_key C key, announcements = [], sequence = 0, ordering = 0,
      reparent_timer = None, ascending_path = None, descending_path = None, paths = [],
      candidate = None, sent = [], delivered = [], spawned = []\<rparr>"

section \<open>Ports and peers\<close>

fun first_port :: "(port \<times> public_key option) list \<Rightarrow> public_key \<Rightarrow> port option" where
  "first_port [] key = None"
| "first_port ((p, peer) # rest) key =
     (case peer of
        None \<Rightarrow> first_port rest key
      | Some k \<Rightarrow> if k = key then Some p else first_port rest key)"

definition port_of :: "router_state \<Rightarrow> public_key \<Rightarrow> port option" where
  "port_of r key = (if public_key r = key then Some 0 else first_port (hm_entries (ports r)) key)"

fun port_peers :: "(port \<times> public_key option) list \<Rightarrow> public_key list" where
  "port_peers [] = []"
| "port_peers ((p, peer) # rest) =
     (case peer of None \<Rightarrow> port_peers rest | Some k \<Rightarrow> k # port_peers rest)"

definition peers :: "router_state \<Rightarrow> public_key list" where
  "peers r = port_peers (hm_entries (ports r))"

definition get_peer_on_port :: "router_state \<Rightarrow> port \<Rightarrow> public_key option" where
  "get_peer_on_port r p =
     (if p = 0 then Some (public_key r)
      else case hm_get (ports r) p of None \<Rightarrow> None | Some peer \<Rightarrow> peer)"

text \<open>
  The loop \<open>for i in 1..\<close> over \<open>u64\<close>: it takes the first free port. The iterator steps its counter
  before it yields a value, so it overflows, and panics, instead of yielding the greatest one.
\<close>

function new_port_from :: "(port, public_key option) hash_map \<Rightarrow> port \<Rightarrow> port option" where
  "new_port_from ps i =
     (if i = - 1 then None
      else if \<not> hm_contains_key ps i then Some i
      else new_port_from ps (i + 1))"
  by pat_completeness auto
termination
proof (relation "measure (\<lambda>(ps, i). unat (- 1 - i))")
  fix ps and i :: port
  assume "i \<noteq> - 1"
  then have "- 1 - i \<noteq> 0" by simp
  then have "unat (- 1 - i - 1) < unat (- 1 - i)"
    by (metis measure_unat)
  then show "((ps, i + 1), (ps, i)) \<in> measure (\<lambda>(ps, i). unat (- 1 - i))"
    by (simp add: algebra_simps)
qed simp

declare new_port_from.simps [simp del]

definition get_new_port :: "port router_act" where
  "get_new_port = act_get (\<lambda>r. act_unwrap (new_port_from (ports r) 1) (\<lambda>i.
     act_seq (act_modify (\<lambda>r. r\<lparr>ports := hm_insert i None (ports r)\<rparr>)) (act_ret i)))"

section \<open>Fields\<close>

definition tree_announcement_of :: "router_state \<Rightarrow> public_key \<Rightarrow> tree_announcement option" where
  "tree_announcement_of r key = hm_get (announcements r) key"

definition set_tree_announcement :: "public_key \<Rightarrow> tree_announcement \<Rightarrow> unit router_act" where
  "set_tree_announcement key a = act_modify (\<lambda>r. r\<lparr>announcements := hm_insert key a (announcements r)\<rparr>)"

definition set_parent :: "public_key \<Rightarrow> unit router_act" where
  "set_parent peer = act_modify (\<lambda>r. r\<lparr>parent := peer\<rparr>)"

definition next_sequence :: "sequence_number router_act" where
  "next_sequence = act_get (\<lambda>r. act_unwrap (checked_add (sequence r) 1) (\<lambda>n.
     act_seq (act_modify (\<lambda>r. r\<lparr>sequence := n\<rparr>)) (act_ret n)))"

definition next_ordering :: "sequence_number router_act" where
  "next_ordering = act_get (\<lambda>r. act_unwrap (checked_add (ordering r) 1) (\<lambda>n.
     act_seq (act_modify (\<lambda>r. r\<lparr>ordering := n\<rparr>)) (act_ret n)))"

definition reparent_timer_expired :: "system_time \<Rightarrow> router_state \<Rightarrow> bool" where
  "reparent_timer_expired now r =
     (case reparent_timer r of Some t \<Rightarrow> is_expired now t | None \<Rightarrow> True)"

definition set_reparent_timer :: "system_time \<Rightarrow> unit router_act" where
  "set_reparent_timer now =
     act_modify (\<lambda>r. r\<lparr>reparent_timer := Some (new_wait_timer now REPARENT_WAIT_TIME)\<rparr>)"

definition i_am_root :: "router_state \<Rightarrow> bool" where
  "i_am_root r \<longleftrightarrow> public_key r = parent r"

definition become_root :: "unit router_act" where
  "become_root = act_get (\<lambda>r. set_parent (public_key r))"

section \<open>The current announcement\<close>

definition current_announcement :: "system_time \<Rightarrow> router_state \<Rightarrow> tree_announcement" where
  "current_announcement now r =
     (case tree_announcement_of r (parent r) of
        Some a \<Rightarrow> a
      | None \<Rightarrow>
          \<lparr>ann_root = Root (public_key r) (sequence r), ann_signatures = [],
           ann_receive_time = now, ann_receive_order = ordering r\<rparr>)"

text \<open>The root, the signatures and the coordinates do not depend on the clock.\<close>

definition current_root :: "router_state \<Rightarrow> root" where
  "current_root r = ann_root (current_announcement 0 r)"

definition current_signatures :: "router_state \<Rightarrow> root_announcement_signature list" where
  "current_signatures r = ann_signatures (current_announcement 0 r)"

definition coordinates_of :: "router_state \<Rightarrow> coordinates" where
  "coordinates_of r = coords (current_announcement 0 r)"

lemma current_announcement_clock [simp]:
  "ann_root (current_announcement now r) = current_root r"
  "ann_signatures (current_announcement now r) = current_signatures r"
  "coords (current_announcement now r) = coordinates_of r"
  by (simp_all add: current_root_def current_signatures_def coordinates_of_def
      current_announcement_def coords_def split: option.split)

section \<open>Sending\<close>

definition spawn :: "task \<Rightarrow> unit router_act" where
  "spawn t = act_modify (\<lambda>r. r\<lparr>spawned := spawned r @ [t]\<rparr>)"

definition send_to_local :: "env \<Rightarrow> frame \<Rightarrow> unit router_act" where
  "send_to_local E f =
     (if env_local_open E then act_modify (\<lambda>r. r\<lparr>delivered := delivered r @ [f]\<rparr>) else act_panic)"

definition send :: "env \<Rightarrow> frame \<Rightarrow> public_key \<Rightarrow> (router_error + unit) router_act" where
  "send E f to = act_get (\<lambda>r.
     if to = public_key r then
       (case f of
          SnekRouted _ \<Rightarrow> act_seq (send_to_local E f) (act_ret (Inr ()))
        | TreeRouted _ \<Rightarrow> act_seq (send_to_local E f) (act_ret (Inr ()))
        | _ \<Rightarrow> act_ret (Inr ()))
     else
       (case hm_get (upload_connections r) to of
          Some socket \<Rightarrow>
            (case env_sink_send E socket f of
               None \<Rightarrow> act_seq (act_modify (\<lambda>r. r\<lparr>sent := sent r @ [(to, f)]\<rparr>)) (act_ret (Inr ()))
             | Some e \<Rightarrow> act_ret (Inl e))
        | None \<Rightarrow> act_ret (Inr ())))"

text \<open>\<open>if let Err(e) = self.send(..).await { debug!(..) }\<close>\<close>

definition send_logged :: "env \<Rightarrow> frame \<Rightarrow> public_key \<Rightarrow> unit router_act" where
  "send_logged E f to = act_seq (send E f to) (act_ret ())"

section \<open>What sending records\<close>

text \<open>A protocol frame is sent to a peer or dropped; the other frames may be for the local client.\<close>

fun is_traffic :: "frame \<Rightarrow> bool" where
  "is_traffic (SnekRouted p) = True"
| "is_traffic (TreeRouted p) = True"
| "is_traffic _ = False"

definition frames_to :: "env \<Rightarrow> router_state \<Rightarrow> public_key \<Rightarrow> frame \<Rightarrow> (public_key \<times> frame) list" where
  "frames_to E r to f =
     (if to = public_key r then []
      else case hm_get (upload_connections r) to of
        Some socket \<Rightarrow> if env_sink_send E socket f = None then [(to, f)] else []
      | None \<Rightarrow> [])"

lemma frames_to_own [simp]: "frames_to E r (public_key r) f = []"
  by (simp add: frames_to_def)

lemma frames_to_in: "(k, g) \<in> set (frames_to E r to f) \<Longrightarrow> k = to \<and> g = f"
  by (auto simp: frames_to_def split: if_splits option.splits)

lemma frames_to_cong:
  "public_key r' = public_key r \<Longrightarrow> upload_connections r' = upload_connections r \<Longrightarrow>
    frames_to E r' = frames_to E r"
  by (simp add: frames_to_def fun_eq_iff)

lemma send_run:
  "\<not> is_traffic f \<or> to \<noteq> public_key r \<Longrightarrow>
    \<exists>res. send E f to r = (Some res, r\<lparr>sent := sent r @ frames_to E r to f\<rparr>)"
  by (cases f) (auto simp: send_def frames_to_def act_defs split: option.split)

lemma send_logged_run:
  "\<not> is_traffic f \<Longrightarrow> send_logged E f to r = (Some (), r\<lparr>sent := sent r @ frames_to E r to f\<rparr>)"
  using send_run [of f to r E] by (auto simp: send_logged_def act_seq_def act_bind_def act_ret_def)

section \<open>Invariants and effects\<close>

text \<open>
  The contract of an invariant that sending a frame which is \<open>ok\<close> cannot break, nor delivering or
  spawning anything. Its preservation by the operations that only send such frames is proved
  here once.
\<close>

locale frame_sends =
  fixes I :: "router_state \<Rightarrow> bool" and ok :: "frame \<Rightarrow> bool"
  assumes inv_ok_sent: "I r \<Longrightarrow> ok f \<Longrightarrow> I (r\<lparr>sent := sent r @ [(to, f)]\<rparr>)"
    and inv_delivered: "I r \<Longrightarrow> I (r\<lparr>delivered := y\<rparr>)"
    and inv_spawned: "I r \<Longrightarrow> I (r\<lparr>spawned := z\<rparr>)"
    and teardown_ok: "ok (SnekTeardown td)"
begin

lemma preserves_spawn [preserve]: "preserves I (spawn t)"
  by (simp add: spawn_def preserves_modify inv_spawned)

lemma preserves_send_to_local [preserve]: "preserves I (send_to_local E f)"
  by (simp add: send_to_local_def preserves_modify preserves_panic inv_delivered)

lemma preserves_ok_send: "ok f \<Longrightarrow> preserves I (send E f to)"
  unfolding send_def
  by (intro preserve preserves_get)
    (auto intro!: preserve preserves_modify inv_ok_sent split: option.split frame.split)

lemma preserves_ok_logged: "ok f \<Longrightarrow> preserves I (send_logged E f to)"
  unfolding send_logged_def by (intro preserve preserves_ok_send)

lemma preserves_teardown_logged [preserve]: "preserves I (send_logged E (SnekTeardown td) to)"
  by (intro preserves_ok_logged teardown_ok)

end

text \<open>An invariant that no frame but an announcement can break.\<close>

fun is_announcement :: "frame \<Rightarrow> bool" where
  "is_announcement (TreeAnnouncement a) = True"
| "is_announcement _ = False"

locale plain_sends =
  fixes I :: "router_state \<Rightarrow> bool"
  assumes inv_plain_sent: "I r \<Longrightarrow> \<not> is_announcement f \<Longrightarrow> I (r\<lparr>sent := sent r @ [(to, f)]\<rparr>)"
    and inv_deliver: "I r \<Longrightarrow> I (r\<lparr>delivered := y\<rparr>)"
    and inv_spawn: "I r \<Longrightarrow> I (r\<lparr>spawned := z\<rparr>)"

sublocale plain_sends \<subseteq> frame_sends I "\<lambda>f. \<not> is_announcement f"
  by unfold_locales (simp_all add: inv_plain_sent inv_deliver inv_spawn)

context plain_sends
begin

lemma preserves_plain_frames [preserve]:
  "preserves I (send E (TreeRouted x1) to)" "preserves I (send E (SnekRouted x2) to)"
  "preserves I (send E (SnekBootstrap x3) to)" "preserves I (send E (SnekBootstrapACK x4) to)"
  "preserves I (send E (SnekSetup x5) to)" "preserves I (send E (SnekSetupACK x6) to)"
  "preserves I (send E (SnekTeardown x7) to)"
  by (simp_all add: preserves_ok_send)

lemma preserves_plain_logged [preserve]:
  "preserves I (send_logged E (SnekBootstrap x3) to)" "preserves I (send_logged E (SnekBootstrapACK x4) to)"
  "preserves I (send_logged E (SnekSetup x5) to)" "preserves I (send_logged E (SnekSetupACK x6) to)"
  by (simp_all add: preserves_ok_logged)

end

text \<open>An invariant that no sending at all can break.\<close>

locale effect_insensitive =
  fixes I :: "router_state \<Rightarrow> bool"
  assumes inv_sent: "I r \<Longrightarrow> I (r\<lparr>sent := x\<rparr>)"
    and inv_deliveries: "I r \<Longrightarrow> I (r\<lparr>delivered := y\<rparr>)"
    and inv_spawns: "I r \<Longrightarrow> I (r\<lparr>spawned := z\<rparr>)"

sublocale effect_insensitive \<subseteq> plain_sends
  by unfold_locales (simp_all add: inv_sent inv_deliveries inv_spawns)

context effect_insensitive
begin

lemma preserves_sent: "preserves I (act_modify (\<lambda>r. r\<lparr>sent := g r\<rparr>))"
  by (simp add: preserves_modify inv_sent)

lemma preserves_send [preserve]: "preserves I (send E f to)"
  unfolding send_def
  by (intro preserve preserves_get) (auto intro!: preserve preserves_sent split: option.split frame.split)

lemma preserves_send_logged [preserve]: "preserves I (send_logged E f to)"
  unfolding send_logged_def by (intro preserve)

end

section \<open>The port table\<close>

lemma first_port_Some_in: "first_port es key = Some p \<Longrightarrow> (p, Some key) \<in> set es"
  by (induction es key rule: first_port.induct) (auto split: option.splits if_splits)

lemma first_port_None_iff: "first_port es key = None \<longleftrightarrow> (\<forall>p. (p, Some key) \<notin> set es)"
  by (induction es key rule: first_port.induct) (auto split: option.splits)

lemma set_port_peers: "set (port_peers es) = {k. \<exists>p. (p, Some k) \<in> set es}"
  by (induction es rule: port_peers.induct) (auto split: option.splits)

text \<open>The port table is well formed: one entry per port, none for the local port zero.\<close>

definition ports_wf :: "router_state \<Rightarrow> bool" where
  "ports_wf r \<longleftrightarrow> hm_wf (ports r) \<and> hm_get (ports r) 0 = None"

lemma peers_iff: "ports_wf r \<Longrightarrow> k \<in> set (peers r) \<longleftrightarrow> (\<exists>p. p \<noteq> 0 \<and> hm_get (ports r) p = Some (Some k))"
  by (auto simp: peers_def set_port_peers ports_wf_def hm_entries_iff) (metis option.distinct(1))

lemma port_of_peer: "k \<in> set (peers r) \<Longrightarrow> \<exists>p. port_of r k = Some p"
  unfolding peers_def set_port_peers port_of_def
  using first_port_None_iff [of "hm_entries (ports r)" k] by auto

lemma get_peer_on_port_of:
  "ports_wf r \<Longrightarrow> port_of r key = Some p \<Longrightarrow> get_peer_on_port r p = Some key"
  by (auto simp: port_of_def get_peer_on_port_def ports_wf_def hm_entries_iff
      split: if_splits dest!: first_port_Some_in)

lemma port_of_get_peer:
  assumes wf: "ports_wf r"
    and unique: "\<And>p q k. hm_get (ports r) p = Some (Some k) \<Longrightarrow> hm_get (ports r) q = Some (Some k) \<Longrightarrow> p = q"
    and own: "\<And>p. hm_get (ports r) p \<noteq> Some (Some (public_key r))"
    and get: "get_peer_on_port r p = Some key"
  shows "port_of r key = Some p"
proof (cases "p = 0")
  case True
  with get show ?thesis by (simp add: get_peer_on_port_def port_of_def)
next
  case False
  with get have p: "hm_get (ports r) p = Some (Some key)"
    by (simp add: get_peer_on_port_def split: option.splits)
  then have "key \<noteq> public_key r" using own by auto
  moreover have "first_port (hm_entries (ports r)) key \<noteq> None"
    using hm_get_in_entries [OF p] by (auto simp: first_port_None_iff)
  then obtain q where q: "first_port (hm_entries (ports r)) key = Some q" by auto
  then have "hm_get (ports r) q = Some (Some key)"
    using wf by (auto simp: ports_wf_def hm_entries_iff dest: first_port_Some_in)
  with p have "q = p" by (rule unique [rotated])
  ultimately show ?thesis using q by (simp add: port_of_def)
qed

section \<open>New ports\<close>

lemma word_succ:
  assumes "(i :: 'a::len word) \<noteq> - 1"
  shows "i < i + 1" and "i + 1 \<le> q \<longleftrightarrow> i < q"
  using assms inc_less_eq_triv_imp [of i] by (auto simp: inc_less_eq_iff not_le [symmetric])

lemma new_port_from_Some:
  "new_port_from ps i = Some p \<Longrightarrow>
    \<not> hm_contains_key ps p \<and> p \<noteq> - 1 \<and> i \<le> p \<and> (\<forall>q. i \<le> q \<and> q < p \<longrightarrow> hm_contains_key ps q)"
proof (induction ps i rule: new_port_from.induct)
  case (1 ps i)
  have ne: "i \<noteq> - 1"
    using "1.prems" by (auto simp: new_port_from.simps [of ps i])
  show ?case
  proof (cases "hm_contains_key ps i")
    case False
    with "1.prems" ne show ?thesis by (auto simp: new_port_from.simps [of ps i])
  next
    case True
    with "1.prems" ne have rec: "new_port_from ps (i + 1) = Some p"
      by (simp add: new_port_from.simps [of ps i])
    from True ne rec have IH: "\<not> hm_contains_key ps p" "p \<noteq> - 1" "i < p"
        "\<forall>q. i < q \<and> q < p \<longrightarrow> hm_contains_key ps q"
      using "1.IH" by (auto simp: word_succ(2) [OF ne])
    have "hm_contains_key ps q" if "i \<le> q" "q < p" for q
      using that IH True by (cases "q = i") auto
    with IH show ?thesis by auto
  qed
qed

lemma new_port_from_None:
  "new_port_from ps i = None \<Longrightarrow> i \<le> q \<Longrightarrow> q \<noteq> - 1 \<Longrightarrow> hm_contains_key ps q"
proof (induction ps i rule: new_port_from.induct)
  case (1 ps i)
  show ?case
  proof (cases "i = - 1")
    case True
    with "1.prems" show ?thesis by (simp add: word_order.extremum_unique)
  next
    case ne: False
    with "1.prems" have i: "hm_contains_key ps i"
      by (auto simp: new_port_from.simps [of ps i] split: if_splits)
    with "1.prems" ne have rec: "new_port_from ps (i + 1) = None"
      by (simp add: new_port_from.simps [of ps i])
    show ?thesis
      using "1.IH" [OF ne _ rec] i "1.prems" by (cases "q = i") (auto simp: word_succ(2) [OF ne])
  qed
qed

lemma new_port_exists:
  assumes "length ps < 2 ^ 64 - 2"
  shows "\<exists>p. new_port_from ps 1 = Some p"
proof (rule ccontr)
  assume "\<nexists>p. new_port_from ps 1 = Some p"
  then have "new_port_from ps 1 = None" by auto
  then have "\<forall>q. 1 \<le> q \<longrightarrow> q \<noteq> - 1 \<longrightarrow> hm_contains_key ps q"
    using new_port_from_None by blast
  moreover have "1 \<le> q" if "q \<noteq> 0" for q :: port
    using that inc_less_eq_iff [of 0 q] by (simp add: word_gt_0)
  moreover have "q \<in> set (map fst ps)" if "hm_contains_key ps q" for q
    using that by (auto simp: hm_contains_key_def hm_get_def map_of_eq_None_iff)
  ultimately have "- {0, - 1} \<subseteq> set (map fst ps)" by blast
  then have "card (- {0, - 1 :: port}) \<le> card (set (map fst ps))"
    by (rule card_mono [OF List.finite_set])
  also have "\<dots> \<le> length ps"
    using card_length [of "map fst ps"] by simp
  finally have "card (- {0, - 1 :: port}) \<le> length ps" .
  moreover have "card (- {0, - 1 :: port}) = 2 ^ 64 - 2"
    by (simp add: Compl_eq_Diff_UNIV card_Diff_subset card_word)
  ultimately show False using assms by simp
qed

end
