(* ===== verification/Selection.thy ===== *)
theory Selection
  imports Prelude
begin

text \<open>
  The selection loops of the router: go through the candidates and keep the best so far,
  replacing it whenever the next one is better. Choosing the next tree hop, the parent and the
  next snake hop are such loops; what they guarantee follows from two laws of the comparison.
\<close>

primrec choose_best :: "('c \<Rightarrow> 'c \<Rightarrow> bool) \<Rightarrow> 'c list \<Rightarrow> 'c \<Rightarrow> 'c" where
  "choose_best better [] b = b"
| "choose_best better (c # cs) b = choose_best better cs (if better c b then c else b)"

lemma choose_best_append:
  "choose_best better (xs @ ys) b = choose_best better ys (choose_best better xs b)"
  by (induction xs arbitrary: b) simp_all

lemma choose_best_in: "choose_best better cs b = b \<or> choose_best better cs b \<in> set cs"
proof (induction cs arbitrary: b)
  case (Cons c cs)
  show ?case using Cons.IH [of "if better c b then c else b"] by auto
qed simp

lemma choose_best_keys:
  "fst (choose_best (\<lambda>x y. better (fst x) (fst y)) xs s) = choose_best better (map fst xs) (fst s)"
  by (induction xs arbitrary: s) simp_all

locale preference =
  fixes better :: "'c \<Rightarrow> 'c \<Rightarrow> bool"
  assumes better_irrefl: "\<not> better c c"
    and better_trans: "better a b \<Longrightarrow> better b c \<Longrightarrow> better a c"
begin

lemma better_asym: "better a b \<Longrightarrow> \<not> better b a"
  using better_irrefl better_trans by blast

lemma choose_best_improves: "choose_best better cs b = b \<or> better (choose_best better cs b) b"
proof (induction cs arbitrary: b)
  case (Cons c cs)
  show ?case using Cons.IH [of "if better c b then c else b"] by (auto intro: better_trans)
qed simp

lemma not_better_mono: "\<not> better c b \<Longrightarrow> \<not> better c (choose_best better cs b)"
  using choose_best_improves [of cs b] better_trans by metis

lemma choose_best_unbeaten: "c \<in> set cs \<Longrightarrow> \<not> better c (choose_best better cs b)"
proof (induction cs arbitrary: b)
  case (Cons d cs)
  have "\<not> better d (if better d b then d else b)"
    using better_irrefl by simp
  then show ?case
    using Cons by (auto dest: not_better_mono)
qed simp

lemma choose_best_start: "\<not> better b (choose_best better cs b)"
  using choose_best_improves [of cs b] better_irrefl better_asym by metis

lemma choose_best_same_iff: "(\<forall>c \<in> set cs. \<not> better c b) \<Longrightarrow> choose_best better cs b = b"
  by (induction cs) auto

text \<open>
  Candidates that carry a value, compared by their keys: the winner is the first one with its key.
\<close>

lemma choose_best_first:
  "choose_best (\<lambda>x y. better (fst x) (fst y)) xs s = (k, w) \<Longrightarrow> map_of (s # xs) k = Some w"
proof (induction xs arbitrary: s)
  case Nil
  then show ?case by simp
next
  case (Cons x xs)
  have best: "k = fst t \<or> better k (fst t)"
    if "choose_best (\<lambda>x y. better (fst x) (fst y)) xs t = (k, w)" for t
  proof -
    have "k = choose_best better (map fst xs) (fst t)"
      using choose_best_keys [of better xs t] by (simp add: that)
    then show ?thesis
      using choose_best_improves by simp
  qed
  show ?case
  proof (cases "better (fst x) (fst s)")
    case True
    then have run: "choose_best (\<lambda>x y. better (fst x) (fst y)) xs x = (k, w)"
      using Cons.prems by simp
    then have "k \<noteq> fst s"
      using best [OF run] True better_trans better_irrefl by metis
    then show ?thesis
      using Cons.IH [OF run] by simp
  next
    case False
    then have run: "choose_best (\<lambda>x y. better (fst x) (fst y)) xs s = (k, w)"
      using Cons.prems by simp
    then have "k = fst s \<or> k \<noteq> fst x"
      using best [OF run] False by metis
    then show ?thesis
      using Cons.IH [OF run] by (cases "k = fst s") simp_all
  qed
qed

end

end
