(* ===== verification/Router_Tree.thy ===== *)
theory Router_Tree
  imports Router_State Selection
begin

text \<open>
  The spanning tree of \<open>src/router.rs\<close>: routing by coordinates, handling announcements,
  choosing a parent and the periodic announcement of the root.
\<close>

section \<open>Routing by coordinates\<close>

definition is_better_next_tree_hop_candidate ::
  "nat \<Rightarrow> nat \<Rightarrow> sequence_number \<Rightarrow> sequence_number \<Rightarrow> bool \<Rightarrow> bool" where
  "is_better_next_tree_hop_candidate peer_distance best_distance peer_order best_order candidate_exists =
     (if peer_distance < best_distance then True
      else if best_distance < peer_distance then False
      else if candidate_exists \<and> peer_order < best_order then True
      else False)"

text \<open>
  The loop over the peers; \<open>None\<close> is the panic of \<open>peer_coords\<close>. \<open>- 1\<close> is
  \<open>SequenceNumber::MAX\<close>.
\<close>

fun next_tree_hop_loop ::
  "router_state \<Rightarrow> coordinates \<Rightarrow> public_key \<Rightarrow> public_key list \<Rightarrow>
   public_key option \<Rightarrow> nat \<Rightarrow> sequence_number \<Rightarrow> public_key option option" where
  "next_tree_hop_loop r dest from [] best_peer best_distance best_ordering = Some best_peer"
| "next_tree_hop_loop r dest from (peer # rest) best_peer best_distance best_ordering =
     (if peer = from then next_tree_hop_loop r dest from rest best_peer best_distance best_ordering
      else case tree_announcement_of r peer of
        None \<Rightarrow> next_tree_hop_loop r dest from rest best_peer best_distance best_ordering
      | Some a \<Rightarrow>
          if current_root r \<noteq> ann_root a then
            next_tree_hop_loop r dest from rest best_peer best_distance best_ordering
          else case peer_coords a of
            None \<Rightarrow> None
          | Some peer_coordinates \<Rightarrow>
              let distance_to_peer = distance_to peer_coordinates dest
              in if is_better_next_tree_hop_candidate distance_to_peer best_distance
                     (ann_receive_order a) best_ordering (best_peer \<noteq> None)
                 then next_tree_hop_loop r dest from rest (Some peer) distance_to_peer (ann_receive_order a)
                 else next_tree_hop_loop r dest from rest best_peer best_distance best_ordering)"

definition next_tree_hop :: "router_state \<Rightarrow> coordinates \<Rightarrow> public_key \<Rightarrow> public_key option option" where
  "next_tree_hop r dest from =
     (if dest = coordinates_of r then Some (Some (public_key r))
      else let our_distance = distance_to dest (coordinates_of r)
        in if our_distance = 0 then Some (Some (public_key r))
           else next_tree_hop_loop r dest from (peers r) None our_distance (- 1))"

section \<open>Announcing\<close>

definition send_tree_announcement :: "env \<Rightarrow> public_key \<Rightarrow> tree_announcement \<Rightarrow> unit router_act" where
  "send_tree_announcement E to a = act_get (\<lambda>r. act_unwrap (port_of r to) (\<lambda>p.
     send_logged E (TreeAnnouncement (append_signature (env_crypto E) a (private_key r) p)) to))"

definition send_tree_announcements_to_all :: "env \<Rightarrow> tree_announcement \<Rightarrow> unit router_act" where
  "send_tree_announcements_to_all E a =
     act_get (\<lambda>r. act_for (peers r) (\<lambda>peer. send_tree_announcement E peer a))"

definition new_tree_announcement :: "system_time \<Rightarrow> tree_announcement router_act" where
  "new_tree_announcement now = act_get (\<lambda>r. act_bind next_sequence (\<lambda>n.
     act_ret \<lparr>ann_root = Root (public_key r) n, ann_signatures = [], ann_receive_time = now,
       ann_receive_order = 0\<rparr>))"

text \<open>\<open>reparent\<close> spawns the task that selects a parent, at once or after waiting.\<close>

definition reparent :: "bool \<Rightarrow> unit router_act" where
  "reparent wait = spawn (Reparent wait)"

section \<open>Choosing a parent\<close>

fun parent_selection_loop ::
  "system_time \<Rightarrow> router_state \<Rightarrow> public_key list \<Rightarrow> root \<Rightarrow> public_key option \<Rightarrow> sequence_number \<Rightarrow>
   public_key option option" where
  "parent_selection_loop now r [] best_root best_peer best_order = Some best_peer"
| "parent_selection_loop now r (peer # rest) best_root best_peer best_order =
     (case tree_announcement_of r peer of
        None \<Rightarrow> parent_selection_loop now r rest best_root best_peer best_order
      | Some a \<Rightarrow>
          (case duration_since now (ann_receive_time a) of
             None \<Rightarrow> None
           | Some elapsed \<Rightarrow>
               if ANNOUNCEMENT_TIMEOUT < elapsed then
                 parent_selection_loop now r rest best_root best_peer best_order
               else if is_loop_of_child a (public_key r) then
                 parent_selection_loop now r rest best_root best_peer best_order
               else
                 let (best_root, best_peer, best_order) =
                       (if best_root < ann_root a then (ann_root a, Some peer, ann_receive_order a)
                        else (best_root, best_peer, best_order))
                 in if ann_root a < best_root then
                      parent_selection_loop now r rest best_root best_peer best_order
                    else if ann_receive_order a < best_order then
                      parent_selection_loop now r rest (ann_root a) (Some peer) (ann_receive_order a)
                    else parent_selection_loop now r rest best_root best_peer best_order))"

definition parent_selection :: "env \<Rightarrow> bool router_act" where
  "parent_selection E =
     act_seq
       (act_get (\<lambda>r. act_when (root_public_key (current_root r) < public_key r) become_root))
       (act_get (\<lambda>r.
          act_unwrap (parent_selection_loop (env_now E) r (peers r) (current_root r) None (- 1)) (\<lambda>best_peer.
            case best_peer of
              Some p \<Rightarrow>
                if p = parent r then act_ret False
                else
                  act_seq (set_parent p)
                    (act_seq
                      (act_get (\<lambda>r. send_tree_announcements_to_all E (current_announcement (env_now E) r)))
                      (act_ret True))
            | None \<Rightarrow> act_seq become_root (act_ret False))))"

section \<open>Handling an announcement\<close>

definition select_new_parent_with_wait :: "unit router_act" where
  "select_new_parent_with_wait = act_seq become_root (reparent True)"

definition announcement_from_parent :: "env \<Rightarrow> tree_announcement \<Rightarrow> unit router_act" where
  "announcement_from_parent E frame = act_get (\<lambda>r.
     let current = current_announcement (env_now E) r;
         key = root_public_key (ann_root frame);
         current_key = root_public_key (ann_root current)
     in if is_loop_of_child frame (public_key r) then select_new_parent_with_wait
        else if key < current_key then select_new_parent_with_wait
        else if current_key < key then send_tree_announcements_to_all E current
        else if key = current_key then
          (if root_sequence_number (ann_root current) < root_sequence_number (ann_root frame)
           then send_tree_announcements_to_all E current
           else select_new_parent_with_wait)
        else act_ret ())"

definition announcement_from_other :: "env \<Rightarrow> tree_announcement \<Rightarrow> public_key \<Rightarrow> unit router_act" where
  "announcement_from_other E frame from = act_get (\<lambda>r.
     let current = current_announcement (env_now E) r;
         key = root_public_key (ann_root frame);
         current_key = root_public_key (ann_root current)
     in if is_loop_of_child frame (public_key r) then act_ret ()
        else if current_key < key then
          act_seq (set_parent from)
            (act_get (\<lambda>r. send_tree_announcements_to_all E (current_announcement (env_now E) r)))
        else if key < current_key then send_tree_announcement E from current
        else if key = current_key then reparent False
        else act_ret ())"

definition replayed :: "router_state \<Rightarrow> tree_announcement \<Rightarrow> public_key \<Rightarrow> bool" where
  "replayed r frame from =
     (case tree_announcement_of r from of
        Some a \<Rightarrow> has_same_root_key frame a \<and> replayed_old_sequence frame a
      | None \<Rightarrow> False)"

definition handle_tree_announcement :: "env \<Rightarrow> tree_announcement \<Rightarrow> public_key \<Rightarrow> unit router_act" where
  "handle_tree_announcement E frame from = act_bind next_ordering (\<lambda>order.
     let frame = frame\<lparr>ann_receive_time := env_now E, ann_receive_order := order\<rparr>
     in act_unwrap (is_clean (env_crypto E) frame from) (\<lambda>clean.
       if \<not> clean then act_ret ()
       else act_get (\<lambda>r.
         if replayed r frame from then act_ret ()
         else act_seq (set_tree_announcement from frame) (act_get (\<lambda>r.
           if \<not> reparent_timer_expired (env_now E) r then act_ret ()
           else if from = parent r then announcement_from_parent E frame
           else announcement_from_other E frame from)))))"

section \<open>Maintenance\<close>

definition maintain_tree :: "env \<Rightarrow> unit router_act" where
  "maintain_tree E =
     act_seq
       (act_get (\<lambda>r. act_when (i_am_root r)
          (act_bind (new_tree_announcement (env_now E)) (send_tree_announcements_to_all E))))
       (reparent True)"

section \<open>The next hop is the best peer\<close>

text \<open>A candidate of the loop: the peer, its distance to the destination, its receive order.\<close>

type_synonym hop_candidate = "public_key option \<times> nat \<times> sequence_number"

definition hop_better :: "hop_candidate \<Rightarrow> hop_candidate \<Rightarrow> bool" where
  "hop_better = (\<lambda>(p, d, ord) (bp, bd, bord). is_better_next_tree_hop_candidate d bd ord bord (bp \<noteq> None) \<and> p \<noteq> None)"

definition hop_eligible :: "router_state \<Rightarrow> public_key \<Rightarrow> public_key \<Rightarrow> tree_announcement \<Rightarrow> bool" where
  "hop_eligible r from peer a \<longleftrightarrow>
     peer \<in> set (peers r) \<and> peer \<noteq> from \<and> tree_announcement_of r peer = Some a \<and> ann_root a = current_root r"

fun hop_candidates :: "router_state \<Rightarrow> coordinates \<Rightarrow> public_key \<Rightarrow> public_key list \<Rightarrow> hop_candidate list" where
  "hop_candidates r dest from [] = []"
| "hop_candidates r dest from (peer # rest) =
     (case tree_announcement_of r peer of
        None \<Rightarrow> hop_candidates r dest from rest
      | Some a \<Rightarrow>
          if peer \<noteq> from \<and> ann_root a = current_root r
          then (Some peer, distance_to (butlast (coords a)) dest, ann_receive_order a)
            # hop_candidates r dest from rest
          else hop_candidates r dest from rest)"

interpretation tree_hop: preference hop_better
  by unfold_locales
    (auto simp: hop_better_def is_better_next_tree_hop_candidate_def split: if_splits prod.splits)

text \<open>Every stored announcement carries a signature; the check on receipt sees to it.\<close>

definition announcements_signed :: "router_state \<Rightarrow> bool" where
  "announcements_signed r \<longleftrightarrow> (\<forall>k a. tree_announcement_of r k = Some a \<longrightarrow> ann_signatures a \<noteq> [])"

lemma announcements_signedD:
  "announcements_signed r \<Longrightarrow> tree_announcement_of r k = Some a \<Longrightarrow> ann_signatures a \<noteq> []"
  by (auto simp: announcements_signed_def)

lemma next_tree_hop_loop_choose:
  assumes "announcements_signed r"
  shows "next_tree_hop_loop r dest from ps bp bd bo =
    Some (fst (choose_best hop_better (hop_candidates r dest from ps) (bp, bd, bo)))"
proof (induction ps arbitrary: bp bd bo)
  case (Cons p ps)
  show ?case
  proof (cases "tree_announcement_of r p")
    case None
    with Cons show ?thesis by simp
  next
    case (Some a)
    then have "peer_coords a = Some (butlast (coords a))"
      using announcements_signedD [OF assms] by (simp add: peer_coords_eq)
    with Cons Some show ?thesis
      by (auto simp: Let_def hop_better_def)
  qed
qed simp

lemma hop_candidates_iff:
  "c \<in> set (hop_candidates r dest from ps) \<longleftrightarrow>
     (\<exists>p a. p \<in> set ps \<and> p \<noteq> from \<and> tree_announcement_of r p = Some a \<and> ann_root a = current_root r \<and>
        c = (Some p, distance_to (butlast (coords a)) dest, ann_receive_order a))"
  by (induction ps) (auto split: option.split)

lemma hop_candidate_eligible:
  "c \<in> set (hop_candidates r dest from (peers r)) \<longleftrightarrow>
     (\<exists>p a. hop_eligible r from p a \<and>
        c = (Some p, distance_to (butlast (coords a)) dest, ann_receive_order a))"
  by (auto simp: hop_candidates_iff hop_eligible_def)

lemma next_tree_hop_away:
  assumes "announcements_signed r" and "dest \<noteq> coordinates_of r"
  shows "next_tree_hop r dest from =
    Some (fst (choose_best hop_better (hop_candidates r dest from (peers r))
      (None, distance_to dest (coordinates_of r), - 1)))"
  using assms by (simp add: next_tree_hop_def Let_def distance_to_0_iff next_tree_hop_loop_choose)

text \<open>What the caller of \<open>next_tree_hop\<close> relies on, for a destination other than this node.\<close>

definition best_hop :: "router_state \<Rightarrow> coordinates \<Rightarrow> public_key \<Rightarrow> public_key \<Rightarrow> bool" where
  "best_hop r dest from p \<longleftrightarrow>
     (\<exists>a. hop_eligible r from p a \<and>
        distance_to (butlast (coords a)) dest < distance_to (coordinates_of r) dest \<and>
        (\<forall>q b. hop_eligible r from q b \<longrightarrow>
           distance_to (butlast (coords a)) dest < distance_to (butlast (coords b)) dest \<or>
           distance_to (butlast (coords a)) dest = distance_to (butlast (coords b)) dest \<and>
           ann_receive_order a \<le> ann_receive_order b))"

lemma next_tree_hop_cases:
  assumes signed: "announcements_signed r" and away: "dest \<noteq> coordinates_of r"
  shows "(\<exists>p. next_tree_hop r dest from = Some (Some p) \<and> best_hop r dest from p) \<or>
    next_tree_hop r dest from = Some None \<and>
      (\<forall>q b. hop_eligible r from q b \<longrightarrow>
         distance_to (coordinates_of r) dest \<le> distance_to (butlast (coords b)) dest)"
proof -
  let ?start = "(None, distance_to dest (coordinates_of r), - 1) :: hop_candidate"
  let ?cs = "hop_candidates r dest from (peers r)"
  define best where "best = choose_best hop_better ?cs ?start"
  have eq: "next_tree_hop r dest from = Some (fst best)"
    using next_tree_hop_away [OF assms] by (simp add: best_def)
  have unbeaten: "\<not> hop_better (Some q, distance_to (butlast (coords b)) dest, ann_receive_order b) best"
    if "hop_eligible r from q b" for q b
    unfolding best_def by (rule tree_hop.choose_best_unbeaten) (use that in \<open>auto simp: hop_candidate_eligible\<close>)
  consider "best = ?start" | "hop_better best ?start" "best \<in> set ?cs"
    using tree_hop.choose_best_improves [of ?cs ?start] choose_best_in [of hop_better ?cs ?start]
    by (auto simp: best_def)
  then show ?thesis
  proof cases
    case 1
    then have "distance_to (coordinates_of r) dest \<le> distance_to (butlast (coords b)) dest"
      if "hop_eligible r from q b" for q b
      using unbeaten [OF that]
      by (auto simp: hop_better_def is_better_next_tree_hop_candidate_def distance_to_commute split: if_splits)
    with 1 eq show ?thesis by auto
  next
    case 2
    then obtain p a where el: "hop_eligible r from p a"
      and best: "best = (Some p, distance_to (butlast (coords a)) dest, ann_receive_order a)"
      by (auto simp: hop_candidate_eligible)
    have "distance_to (butlast (coords a)) dest < distance_to (coordinates_of r) dest"
      using 2(1) best
      by (auto simp: hop_better_def is_better_next_tree_hop_candidate_def distance_to_commute split: if_splits)
    moreover have "distance_to (butlast (coords a)) dest < distance_to (butlast (coords b)) dest \<or>
        distance_to (butlast (coords a)) dest = distance_to (butlast (coords b)) dest \<and>
        ann_receive_order a \<le> ann_receive_order b" if "hop_eligible r from q b" for q b
      using unbeaten [OF that] best
      by (auto simp: hop_better_def is_better_next_tree_hop_candidate_def not_less split: if_splits)
    ultimately have "best_hop r dest from p"
      unfolding best_hop_def using el by blast
    with eq best show ?thesis by simp
  qed
qed

lemma next_tree_hop_here: "dest = coordinates_of r \<Longrightarrow> next_tree_hop r dest from = Some (Some (public_key r))"
  by (simp add: next_tree_hop_def)

text \<open>
  C16: tree routing is greedy and picks the best peer. With signed announcements the choice
  never panics. A frame for this node's own coordinates stays here; otherwise the result is a
  peer that announced the current root, is not the one the frame came from, is strictly
  closer to the destination than this node, is at least as close as every other such peer,
  and among equally close ones is the first to have announced; and there is no result only
  when no such peer is closer.
\<close>

theorem next_tree_hop_best:
  assumes "announcements_signed r"
  shows "if dest = coordinates_of r then next_tree_hop r dest from = Some (Some (public_key r))
    else (\<exists>p. next_tree_hop r dest from = Some (Some p) \<and> best_hop r dest from p) \<or>
      next_tree_hop r dest from = Some None \<and>
        (\<forall>q b. hop_eligible r from q b \<longrightarrow>
           distance_to (coordinates_of r) dest \<le> distance_to (butlast (coords b)) dest)"
  using next_tree_hop_cases [OF assms] next_tree_hop_here by auto

section \<open>What announcing sends\<close>

text \<open>The frames that reach a sink when an announcement goes to the listed peers.\<close>

definition announced_to :: "env \<Rightarrow> router_state \<Rightarrow> tree_announcement \<Rightarrow> public_key \<Rightarrow> (public_key \<times> frame) list" where
  "announced_to E r a k =
     (case (port_of r k, hm_get (upload_connections r) k) of
        (Some p, Some socket) \<Rightarrow>
          let f = TreeAnnouncement (append_signature (env_crypto E) a (private_key r) p)
          in if k \<noteq> public_key r \<and> env_sink_send E socket f = None then [(k, f)] else []
      | _ \<Rightarrow> [])"

lemma port_of_sent [simp]: "port_of (r\<lparr>sent := x\<rparr>) k = port_of r k"
  by (simp add: port_of_def)

lemma announced_to_sent [simp]: "announced_to E (r\<lparr>sent := x\<rparr>) a = announced_to E r a"
  by (rule ext) (simp add: announced_to_def split: option.split)

lemma send_tree_announcement_run:
  "port_of r k = Some p \<Longrightarrow>
    send_tree_announcement E k a r = (Some (), r\<lparr>sent := sent r @ announced_to E r a k\<rparr>)"
  by (auto simp: send_tree_announcement_def send_logged_def send_def announced_to_def act_defs Let_def
      split: option.split)

lemma send_tree_announcements_run:
  "(\<And>k. k \<in> set ks \<Longrightarrow> port_of r k \<noteq> None) \<Longrightarrow>
    act_for ks (\<lambda>k. send_tree_announcement E k a) r =
      (Some (), r\<lparr>sent := sent r @ concat (map (announced_to E r a) ks)\<rparr>)"
proof (induction ks arbitrary: r)
  case Nil
  then show ?case by (simp add: act_ret_def)
next
  case (Cons k ks)
  then obtain p where p: "port_of r k = Some p" by fastforce
  let ?r = "r\<lparr>sent := sent r @ announced_to E r a k\<rparr>"
  have "act_for ks (\<lambda>k. send_tree_announcement E k a) ?r =
      (Some (), ?r\<lparr>sent := sent ?r @ concat (map (announced_to E ?r a) ks)\<rparr>)"
    using Cons by (intro Cons.IH) auto
  then show ?case
    by (simp add: act_seq_def act_bind_def send_tree_announcement_run [OF p])
qed

lemma send_to_all_run:
  "send_tree_announcements_to_all E a r =
    (Some (), r\<lparr>sent := sent r @ concat (map (announced_to E r a) (peers r))\<rparr>)"
  unfolding send_tree_announcements_to_all_def act_get_def
  using send_tree_announcements_run [of "peers r" r E a] port_of_peer by fastforce

section \<open>Handling an announcement, branch by branch\<close>

lemma is_clean_stamp [simp]:
  "is_clean C (a\<lparr>ann_receive_time := t, ann_receive_order := n\<rparr>) peer = is_clean C a peer"
  by (simp add: is_clean_def split: list.split)

lemma stamp_simps [simp]:
  "is_loop_of_child (a\<lparr>ann_receive_time := t, ann_receive_order := n\<rparr>) = is_loop_of_child a"
  "coords (a\<lparr>ann_receive_time := t, ann_receive_order := n\<rparr>) = coords a"
  "replayed r (a\<lparr>ann_receive_time := t, ann_receive_order := n\<rparr>) peer = replayed r a peer"
  by (auto simp: is_loop_of_child_def coords_def replayed_def has_same_root_key_def
      replayed_old_sequence_def split: option.split)

lemma replayed_ordering [simp]: "replayed (r\<lparr>ordering := n\<rparr>) a peer = replayed r a peer"
  by (simp add: replayed_def tree_announcement_of_def)

text \<open>The state after a clean and fresh announcement is stored.\<close>

definition stamped :: "env \<Rightarrow> router_state \<Rightarrow> tree_announcement \<Rightarrow> tree_announcement" where
  "stamped E r a = a\<lparr>ann_receive_time := env_now E, ann_receive_order := ordering r + 1\<rparr>"

definition stored :: "env \<Rightarrow> router_state \<Rightarrow> tree_announcement \<Rightarrow> public_key \<Rightarrow> router_state" where
  "stored E r a from =
     r\<lparr>ordering := ordering r + 1, announcements := hm_insert from (stamped E r a) (announcements r)\<rparr>"

lemma stored_simps [simp]:
  "parent (stored E r a from) = parent r" "public_key (stored E r a from) = public_key r"
  "private_key (stored E r a from) = private_key r" "sent (stored E r a from) = sent r"
  "spawned (stored E r a from) = spawned r" "peers (stored E r a from) = peers r"
  "sequence (stored E r a from) = sequence r" "ports (stored E r a from) = ports r"
  "upload_connections (stored E r a from) = upload_connections r"
  "reparent_timer_expired now (stored E r a from) = reparent_timer_expired now r"
  "tree_announcement_of (stored E r a from) k = (if k = from then Some (stamped E r a) else tree_announcement_of r k)"
  by (simp_all add: stored_def peers_def reparent_timer_expired_def tree_announcement_of_def)

lemma checked_succ: "n \<noteq> - 1 \<Longrightarrow> checked_add n 1 = Some (n + 1 :: 'a::len word)"
proof -
  assume "n \<noteq> - 1"
  then have "1 + n \<noteq> 0" by (metis add.commute add_eq_0_iff)
  then have "Suc (unat n) = unat (1 + n)" by (simp add: unatSuc)
  moreover have "unat (1 + n) < 2 ^ LENGTH('a)" by (rule unsigned_less)
  ultimately show ?thesis by (simp add: checked_add_def)
qed

lemma handle_tree_announcement_run:
  assumes "ordering r \<noteq> - 1"
  shows "handle_tree_announcement E a from r =
    (case is_clean (env_crypto E) a from of
       None \<Rightarrow> (None, r\<lparr>ordering := ordering r + 1\<rparr>)
     | Some clean \<Rightarrow>
         if \<not> clean \<or> replayed r a from then (Some (), r\<lparr>ordering := ordering r + 1\<rparr>)
         else if \<not> reparent_timer_expired (env_now E) r then (Some (), stored E r a from)
         else if from = parent r then announcement_from_parent E (stamped E r a) (stored E r a from)
         else announcement_from_other E (stamped E r a) from (stored E r a from))"
  using assms
  by (simp add: handle_tree_announcement_def next_ordering_def checked_succ act_defs Let_def
      set_tree_announcement_def stored_def stamped_def reparent_timer_expired_def split: option.split)

lemma current_announcement_stored_parent:
  "from = parent r \<Longrightarrow> current_announcement now (stored E r a from) = stamped E r a"
  by (simp add: current_announcement_def)

lemma stamped_simps [simp]:
  "ann_root (stamped E r a) = ann_root a" "ann_signatures (stamped E r a) = ann_signatures a"
  "coords (stamped E r a) = coords a" "is_loop_of_child (stamped E r a) = is_loop_of_child a"
  "is_clean C (stamped E r a) peer = is_clean C a peer"
  "ann_receive_order (stamped E r a) = ordering r + 1" "ann_receive_time (stamped E r a) = env_now E"
  by (simp_all add: stamped_def)

text \<open>
  C28: an update from the parent is never accepted. Whatever root and sequence number a clean
  announcement from the current parent carries, this node becomes root and waits to re-parent,
  and sends nothing: the announcement is stored first, so the root it is compared with is its
  own. The branches that accept the update and forward it are never reached.
\<close>

theorem parent_update_never_accepted:
  assumes "is_clean (env_crypto E) a (parent r) = Some True" and "\<not> replayed r a (parent r)"
    and "reparent_timer_expired (env_now E) r" and "ordering r \<noteq> - 1"
  shows "handle_tree_announcement E a (parent r) r =
    (Some (), (stored E r a (parent r))\<lparr>parent := public_key r, spawned := spawned r @ [Reparent True]\<rparr>)"
proof -
  have root: "current_root (stored E r a (parent r)) = ann_root a"
    by (simp add: current_root_def current_announcement_stored_parent)
  show ?thesis
    using assms root
    by (simp add: handle_tree_announcement_run announcement_from_parent_def
        select_new_parent_with_wait_def become_root_def set_parent_def reparent_def spawn_def
        act_defs Let_def)
qed

text \<open>
  C24: a stronger root is followed. A clean, fresh, loop-free announcement with a higher root
  key from a peer that is not the parent is stored, its sender becomes the parent, its root
  and coordinates become this node's, and the announcement, signed by this node, goes to every
  peer that has a working connection.
\<close>

theorem stronger_root_followed:
  assumes "is_clean (env_crypto E) a from = Some True" and "\<not> replayed r a from"
    and "reparent_timer_expired (env_now E) r" and "ordering r \<noteq> - 1"
    and "from \<noteq> parent r" and "\<not> is_loop_of_child a (public_key r)"
    and "root_public_key (current_root r) < root_public_key (ann_root a)"
  shows "\<exists>r'. handle_tree_announcement E a from r = (Some (), r') \<and>
    parent r' = from \<and> current_root r' = ann_root a \<and> coordinates_of r' = coords a \<and>
    tree_announcement_of r' from = Some (stamped E r a) \<and>
    sent r' = sent r @ concat (map (announced_to E r (stamped E r a)) (peers r))"
proof -
  let ?r1 = "stored E r a from" and ?r2 = "(stored E r a from)\<lparr>parent := from\<rparr>"
  have root: "current_root ?r1 = current_root r"
    using assms(5) by (simp add: current_root_def current_announcement_def split: option.split)
  have cur: "current_announcement now ?r2 = stamped E r a" for now
    by (simp add: current_announcement_def tree_announcement_of_def stored_def)
  have same: "announced_to E ?r2 b = announced_to E r b" for b
    by (rule ext) (simp add: announced_to_def port_of_def split: option.split)
  have "handle_tree_announcement E a from r =
      send_tree_announcements_to_all E (stamped E r a) ?r2"
    using assms root cur
    by (simp add: handle_tree_announcement_run announcement_from_other_def set_parent_def
        act_seq_def act_bind_def act_modify_def act_get_def Let_def)
  also have "\<dots> = (Some (), ?r2\<lparr>sent := sent r @ concat (map (announced_to E r (stamped E r a)) (peers r))\<rparr>)"
    by (simp add: send_to_all_run same peers_def)
  finally show ?thesis
    by (simp add: current_root_def coordinates_of_def current_announcement_def tree_announcement_of_def
        stored_def)
qed

text \<open>
  What is dropped and what panics. An announcement without signatures panics the task of
  the peer it came from; one that fails the integrity check or replays an old sequence number
  changes nothing but the receive counter.
\<close>

lemma announcement_dropped:
  assumes "ordering r \<noteq> - 1"
  shows "(ann_signatures a = [] \<longrightarrow> fst (handle_tree_announcement E a from r) = None) \<and>
    (is_clean (env_crypto E) a from = Some False \<or>
       ann_signatures a \<noteq> [] \<and> replayed r a from \<longrightarrow>
     handle_tree_announcement E a from r = (Some (), r\<lparr>ordering := ordering r + 1\<rparr>))"
  using assms is_clean_None_iff [of "env_crypto E" a "from"]
  by (auto simp: handle_tree_announcement_run split: option.split)

section \<open>The parent is the best announced one\<close>

text \<open>A candidate of the loop: the root it announces, the peer, the receive order.\<close>

type_synonym parent_candidate = "root \<times> public_key option \<times> sequence_number"

definition parent_better :: "parent_candidate \<Rightarrow> parent_candidate \<Rightarrow> bool" where
  "parent_better = (\<lambda>(rt, p, ord) (brt, bp, bord). brt < rt \<or> rt = brt \<and> ord < bord)"

interpretation parent_choice: preference parent_better
  by unfold_locales (auto simp: parent_better_def)

text \<open>A peer that may become parent: its announcement has not timed out and is no loop.\<close>

definition parent_eligible :: "system_time \<Rightarrow> router_state \<Rightarrow> public_key \<Rightarrow> tree_announcement \<Rightarrow> bool" where
  "parent_eligible now r peer a \<longleftrightarrow>
     peer \<in> set (peers r) \<and> tree_announcement_of r peer = Some a \<and>
     now - ann_receive_time a \<le> ANNOUNCEMENT_TIMEOUT \<and> \<not> is_loop_of_child a (public_key r)"

fun parent_candidates :: "system_time \<Rightarrow> router_state \<Rightarrow> public_key list \<Rightarrow> parent_candidate list" where
  "parent_candidates now r [] = []"
| "parent_candidates now r (peer # rest) =
     (case tree_announcement_of r peer of
        None \<Rightarrow> parent_candidates now r rest
      | Some a \<Rightarrow>
          if now - ann_receive_time a \<le> ANNOUNCEMENT_TIMEOUT \<and> \<not> is_loop_of_child a (public_key r)
          then (ann_root a, Some peer, ann_receive_order a) # parent_candidates now r rest
          else parent_candidates now r rest)"

text \<open>No stored announcement is stamped later than the clock reads.\<close>

definition clock_ok :: "system_time \<Rightarrow> router_state \<Rightarrow> bool" where
  "clock_ok now r \<longleftrightarrow> (\<forall>k a. tree_announcement_of r k = Some a \<longrightarrow> ann_receive_time a \<le> now)"

lemma clock_okD: "clock_ok now r \<Longrightarrow> tree_announcement_of r k = Some a \<Longrightarrow> ann_receive_time a \<le> now"
  by (auto simp: clock_ok_def)

lemma parent_selection_loop_choose:
  assumes "clock_ok now r"
  shows "parent_selection_loop now r ps br bp bo =
    Some (fst (snd (choose_best parent_better (parent_candidates now r ps) (br, bp, bo))))"
proof (induction ps arbitrary: br bp bo)
  case (Cons p ps)
  show ?case
  proof (cases "tree_announcement_of r p")
    case None
    with Cons show ?thesis by simp
  next
    case (Some a)
    then have "duration_since now (ann_receive_time a) = Some (now - ann_receive_time a)"
      using clock_okD [OF assms] by (simp add: duration_since_def)
    with Cons Some show ?thesis
      by (auto simp: Let_def parent_better_def not_less)
  qed
qed simp

lemma parent_candidates_iff:
  "c \<in> set (parent_candidates now r (peers r)) \<longleftrightarrow>
     (\<exists>p a. parent_eligible now r p a \<and> c = (ann_root a, Some p, ann_receive_order a))"
proof -
  have "c \<in> set (parent_candidates now r ps) \<longleftrightarrow>
      (\<exists>p a. p \<in> set ps \<and> tree_announcement_of r p = Some a \<and>
         now - ann_receive_time a \<le> ANNOUNCEMENT_TIMEOUT \<and> \<not> is_loop_of_child a (public_key r) \<and>
         c = (ann_root a, Some p, ann_receive_order a))" for ps
    by (induction ps) (auto split: option.split)
  then show ?thesis by (auto simp: parent_eligible_def)
qed

definition best_parent :: "system_time \<Rightarrow> router_state \<Rightarrow> root \<Rightarrow> public_key \<Rightarrow> bool" where
  "best_parent now r floor p \<longleftrightarrow>
     (\<exists>a. parent_eligible now r p a \<and> floor \<le> ann_root a \<and>
        (\<forall>q b. parent_eligible now r q b \<longrightarrow>
           ann_root b < ann_root a \<or> ann_root b = ann_root a \<and> ann_receive_order a \<le> ann_receive_order b))"

lemma parent_loop_cases:
  assumes "clock_ok now r"
  shows "(\<exists>p. parent_selection_loop now r (peers r) floor None (- 1) = Some (Some p) \<and> best_parent now r floor p) \<or>
    parent_selection_loop now r (peers r) floor None (- 1) = Some None \<and>
      (\<forall>q b. parent_eligible now r q b \<longrightarrow>
         ann_root b < floor \<or> ann_root b = floor \<and> ann_receive_order b = - 1)"
proof -
  let ?start = "(floor, None, - 1) :: parent_candidate"
  let ?cs = "parent_candidates now r (peers r)"
  define best where "best = choose_best parent_better ?cs ?start"
  have eq: "parent_selection_loop now r (peers r) floor None (- 1) = Some (fst (snd best))"
    using parent_selection_loop_choose [OF assms] by (simp add: best_def)
  have unbeaten: "\<not> parent_better (ann_root b, Some q, ann_receive_order b) best"
    if "parent_eligible now r q b" for q b
    unfolding best_def by (rule parent_choice.choose_best_unbeaten) (use that in \<open>auto simp: parent_candidates_iff\<close>)
  consider "best = ?start" | "parent_better best ?start" "best \<in> set ?cs"
    using parent_choice.choose_best_improves [of ?cs ?start] choose_best_in [of parent_better ?cs ?start]
    by (auto simp: best_def)
  then show ?thesis
  proof cases
    case 1
    then have "ann_root b < floor \<or> ann_root b = floor \<and> ann_receive_order b = - 1"
      if "parent_eligible now r q b" for q b
      using unbeaten [OF that] word_order.not_eq_extremum [of "ann_receive_order b"]
      by (auto simp: parent_better_def)
    with 1 eq show ?thesis by auto
  next
    case 2
    then obtain p a where el: "parent_eligible now r p a"
      and best: "best = (ann_root a, Some p, ann_receive_order a)"
      by (auto simp: parent_candidates_iff)
    have "floor \<le> ann_root a"
      using 2(1) best by (auto simp: parent_better_def)
    moreover have "ann_root b < ann_root a \<or> ann_root b = ann_root a \<and> ann_receive_order a \<le> ann_receive_order b"
      if "parent_eligible now r q b" for q b
      using unbeaten [OF that] best by (auto simp: parent_better_def not_less)
    ultimately have "best_parent now r floor p"
      unfolding best_parent_def using el by blast
    with eq best show ?thesis by simp
  qed
qed

text \<open>The state after the first step of \<open>parent_selection\<close>: a node stronger than its root is root.\<close>

definition reclaimed :: "router_state \<Rightarrow> router_state" where
  "reclaimed r =
     (if root_public_key (current_root r) < public_key r then r\<lparr>parent := public_key r\<rparr> else r)"

lemma reclaimed_simps [simp]:
  "public_key (reclaimed r) = public_key r" "peers (reclaimed r) = peers r"
  "sent (reclaimed r) = sent r" "announcements (reclaimed r) = announcements r"
  "tree_announcement_of (reclaimed r) = tree_announcement_of r"
  "clock_ok now (reclaimed r) = clock_ok now r"
  "parent_eligible now (reclaimed r) = parent_eligible now r"
  by (auto simp: reclaimed_def peers_def tree_announcement_of_def fun_eq_iff clock_ok_def parent_eligible_def)

lemma best_parent_reclaimed [simp]: "best_parent now (reclaimed r) = best_parent now r"
  by (simp add: best_parent_def fun_eq_iff)

lemma parent_selection_run:
  "parent_selection E r =
     (case parent_selection_loop (env_now E) (reclaimed r) (peers r) (current_root (reclaimed r)) None (- 1) of
        None \<Rightarrow> (None, reclaimed r)
      | Some None \<Rightarrow> (Some False, (reclaimed r)\<lparr>parent := public_key r\<rparr>)
      | Some (Some p) \<Rightarrow>
          if p = parent (reclaimed r) then (Some False, reclaimed r)
          else let r' = (reclaimed r)\<lparr>parent := p\<rparr>
            in (Some True, r'\<lparr>sent := sent r @
                 concat (map (announced_to E r' (current_announcement (env_now E) r')) (peers r))\<rparr>))"
proof -
  have first: "act_get (\<lambda>r. act_when (root_public_key (current_root r) < public_key r) become_root) r =
      (Some (), reclaimed r)"
    by (simp add: reclaimed_def become_root_def set_parent_def act_defs)
  have peers: "peers (s\<lparr>parent := p\<rparr>) = peers s" for s p
    by (simp add: peers_def)
  show ?thesis
    unfolding parent_selection_def act_seq_def act_bind_def first
    by (auto simp: act_get_def act_unwrap_def act_panic_def act_ret_def act_modify_def set_parent_def
        become_root_def Let_def send_to_all_run peers split: option.split)
qed

lemma root_reclaimed:
  assumes "tree_announcement_of r (public_key r) = None"
  shows "public_key r \<le> root_public_key (current_root (reclaimed r))"
  using assms by (auto simp: reclaimed_def current_root_def current_announcement_def tree_announcement_of_def)

text \<open>
  C18: parent selection picks the strongest root on offer and never a loop. If no stored
  announcement is stamped in the future and there is none of this node's own, selection
  returns. Either the parent is then a peer whose announcement is fresh and free of loops
  through this node, whose root is at least the node's previous root and at least its own key,
  and which no other such peer beats in root or, for the same root, in age; or this node is
  its own parent, and no such peer offers a root as strong as the one it started from (but for
  the largest possible receive order). \<open>True\<close> is returned exactly when the parent changed to
  another peer.
\<close>

theorem parent_selection_best:
  assumes "clock_ok (env_now E) r" and "tree_announcement_of r (public_key r) = None"
  shows "\<exists>changed r'. parent_selection E r = (Some changed, r') \<and>
    (let floor = current_root (reclaimed r)
     in public_key r \<le> root_public_key floor \<and>
        (best_parent (env_now E) r floor (parent r') \<and> (changed \<longleftrightarrow> parent r' \<noteq> parent (reclaimed r)) \<or>
         parent r' = public_key r \<and> \<not> changed \<and>
           (\<forall>q b. parent_eligible (env_now E) r q b \<longrightarrow>
              ann_root b < floor \<or> ann_root b = floor \<and> ann_receive_order b = - 1)))"
proof -
  let ?now = "env_now E" and ?floor = "current_root (reclaimed r)"
  have clock: "clock_ok ?now (reclaimed r)"
    using assms(1) by simp
  consider p where "parent_selection_loop ?now (reclaimed r) (peers r) ?floor None (- 1) = Some (Some p)"
      "best_parent ?now r ?floor p"
    | "parent_selection_loop ?now (reclaimed r) (peers r) ?floor None (- 1) = Some None"
      "\<forall>q b. parent_eligible ?now r q b \<longrightarrow> ann_root b < ?floor \<or> ann_root b = ?floor \<and> ann_receive_order b = - 1"
    using parent_loop_cases [OF clock, of ?floor] by auto
  then show ?thesis
  proof cases
    case 1
    then show ?thesis
      using root_reclaimed [OF assms(2)]
      by (cases "p = parent (reclaimed r)") (auto simp: parent_selection_run Let_def)
  next
    case 2
    then show ?thesis
      using root_reclaimed [OF assms(2)] by (auto simp: parent_selection_run Let_def)
  qed
qed

section \<open>Invariants and the operations of the tree\<close>

text \<open>An invariant that sending announcements cannot break.\<close>

locale announces = frame_sends +
  assumes announcement_ok: "ok (TreeAnnouncement a)"
begin

lemma preserves_announcement [preserve]:
  "preserves I (send E (TreeAnnouncement a) to)" "preserves I (send_logged E (TreeAnnouncement a) to)"
  by (simp_all add: preserves_ok_send preserves_ok_logged announcement_ok)

lemma preserves_reparent [preserve]: "preserves I (reparent wait)"
  unfolding reparent_def by (intro preserve)

lemma preserves_send_tree_announcement [preserve]: "preserves I (send_tree_announcement E k a)"
  unfolding send_tree_announcement_def by (intro preserve)

lemma preserves_send_to_all [preserve]: "preserves I (send_tree_announcements_to_all E a)"
  unfolding send_tree_announcements_to_all_def by (intro preserve)

end

text \<open>An invariant that does not depend on the choice of the parent either.\<close>

locale parent_frames = announces +
  assumes keeps_parent: "I r \<Longrightarrow> I (r\<lparr>parent := p\<rparr>)"
begin

lemma preserves_set_parent [preserve]: "preserves I (set_parent p)"
  by (simp add: set_parent_def preserves_modify keeps_parent)

lemma preserves_become_root [preserve]: "preserves I become_root"
  unfolding become_root_def by (intro preserve)

lemma preserves_announcement_from_parent [preserve]: "preserves I (announcement_from_parent E a)"
  unfolding announcement_from_parent_def select_new_parent_with_wait_def Let_def
  by (intro preserve)

lemma preserves_announcement_from_other [preserve]: "preserves I (announcement_from_other E a k)"
  unfolding announcement_from_other_def Let_def
  by (intro preserve)

lemma preserves_parent_selection [preserve]: "preserves I (parent_selection E)"
  unfolding parent_selection_def
  by (intro preserve)

end

text \<open>
  An invariant that holds whatever the operations of the tree write, except for the stored
  announcements: those may be required to be clean.
\<close>

locale tree_frames = parent_frames +
  fixes C :: crypto
  assumes keeps_ordering: "I r \<Longrightarrow> I (r\<lparr>ordering := n\<rparr>)"
    and keeps_sequence: "I r \<Longrightarrow> I (r\<lparr>sequence := n\<rparr>)"
    and keeps_timer: "I r \<Longrightarrow> I (r\<lparr>reparent_timer := t\<rparr>)"
    and keeps_announcement: "I r \<Longrightarrow> is_clean C a k = Some True \<Longrightarrow>
      I (r\<lparr>announcements := hm_insert k a (announcements r)\<rparr>)"
begin

lemma preserves_next_ordering [preserve]: "preserves I next_ordering"
  unfolding next_ordering_def by (intro preserve preserves_modify keeps_ordering)

lemma preserves_next_sequence [preserve]: "preserves I next_sequence"
  unfolding next_sequence_def by (intro preserve preserves_modify keeps_sequence)

lemma preserves_set_reparent_timer [preserve]: "preserves I (set_reparent_timer now)"
  unfolding set_reparent_timer_def by (intro preserves_modify keeps_timer)

lemma preserves_set_tree_announcement:
  "is_clean C a k = Some True \<Longrightarrow> preserves I (set_tree_announcement k a)"
  unfolding set_tree_announcement_def by (intro preserves_modify keeps_announcement)

lemma preserves_handle_tree_announcement [preserve]:
  "env_crypto E = C \<Longrightarrow> preserves I (handle_tree_announcement E a k)"
  unfolding handle_tree_announcement_def Let_def
  by (intro preserve preserves_set_tree_announcement) simp_all

lemma preserves_maintain_tree [preserve]: "preserves I (maintain_tree E)"
  unfolding maintain_tree_def new_tree_announcement_def by (intro preserve)

lemma preserves_first_announcement [preserve]:
  "preserves I (act_get (\<lambda>r. send_tree_announcement E k (current_announcement (env_now E) r)))"
  by (intro preserve)

end

text \<open>The same for an invariant that does not look at sending at all: every frame is allowed.\<close>

sublocale effect_insensitive \<subseteq> all_frames?: announces I "\<lambda>f. True"
  by unfold_locales (simp_all add: inv_sent inv_deliveries inv_spawns)

locale parent_insensitive = effect_insensitive +
  assumes inv_parent: "I r \<Longrightarrow> I (r\<lparr>parent := p\<rparr>)"

sublocale parent_insensitive \<subseteq> all_frames?: parent_frames I "\<lambda>f. True"
  by unfold_locales (simp add: inv_parent)

locale tree_invariant = parent_insensitive +
  fixes C :: crypto
  assumes inv_ordering: "I r \<Longrightarrow> I (r\<lparr>ordering := n\<rparr>)"
    and inv_sequence: "I r \<Longrightarrow> I (r\<lparr>sequence := n\<rparr>)"
    and inv_timer: "I r \<Longrightarrow> I (r\<lparr>reparent_timer := t\<rparr>)"
    and inv_announcement: "I r \<Longrightarrow> is_clean C a k = Some True \<Longrightarrow>
      I (r\<lparr>announcements := hm_insert k a (announcements r)\<rparr>)"

sublocale tree_invariant \<subseteq> all_frames?: tree_frames I "\<lambda>f. True" C
  by unfold_locales (simp_all add: inv_ordering inv_sequence inv_timer inv_announcement)

text \<open>
  Every stored announcement passed the integrity check for the peer it is stored under; so it
  has a signature and its coordinates have no zero port.
\<close>

definition announcements_clean :: "crypto \<Rightarrow> router_state \<Rightarrow> bool" where
  "announcements_clean C r \<longleftrightarrow>
     (\<forall>k a. tree_announcement_of r k = Some a \<longrightarrow> is_clean C a k = Some True)"

lemma announcements_clean_signed: "announcements_clean C r \<Longrightarrow> announcements_signed r"
  by (metis announcements_clean_def announcements_signed_def is_clean_True_nonempty)

interpretation clean: tree_invariant "announcements_clean C" C
  by unfold_locales (auto simp: announcements_clean_def tree_announcement_of_def split: if_splits)

lemma handle_tree_announcement_clean:
  "announcements_clean (env_crypto E) r \<Longrightarrow>
    announcements_clean (env_crypto E) (snd (handle_tree_announcement E a k r))"
  using clean.preserves_handle_tree_announcement by (blast dest: preservesD)

text \<open>What a handled announcement leaves in the table.\<close>

interpretation announcements_fixed: parent_insensitive "\<lambda>r. announcements r = m"
  by unfold_locales simp_all

lemma handle_tree_announcement_table:
  "announcements (snd (handle_tree_announcement E a k r)) = announcements r \<or>
   is_clean (env_crypto E) a k = Some True \<and> \<not> replayed r a k \<and>
     announcements (snd (handle_tree_announcement E a k r)) = hm_insert k (stamped E r a) (announcements r)"
proof (cases "ordering r = - 1")
  case True
  then have "checked_add (ordering r) 1 = None"
    by (simp add: checked_add_max)
  then show ?thesis
    by (simp add: handle_tree_announcement_def next_ordering_def act_defs)
next
  case False
  have "announcements (snd (announcement_from_parent E b s)) = announcements s"
    "announcements (snd (announcement_from_other E b k s)) = announcements s" for b s
    by (rule preservesD [OF announcements_fixed.preserves_announcement_from_parent], rule refl)
      (rule preservesD [OF announcements_fixed.preserves_announcement_from_other], rule refl)
  then show ?thesis
    using False by (auto simp: handle_tree_announcement_run stored_def split: option.split)
qed

text \<open>The coordinates of a node whose table is clean never contain the local port.\<close>

lemma coordinates_no_local_port:
  assumes "announcements_clean C r"
  shows "0 \<notin> set (coordinates_of r)"
  using assms
  by (auto simp: coordinates_of_def current_announcement_def announcements_clean_def
      is_clean_True_iff coords_def split: option.split)

section \<open>An example router\<close>

text \<open>
  A node with key 5, a child of the root 9, with a second peer 6; the examples below run on it.
  Every frame it sends is taken by the sink.
\<close>

definition example_env :: env where
  "example_env = \<lparr>env_crypto = example_crypto, env_now = 100, env_random = 77,
     env_sink_send = (\<lambda>socket f. None), env_local_open = True\<rparr>"

definition heard :: "u8 \<Rightarrow> port \<Rightarrow> sequence_number \<Rightarrow> tree_announcement" where
  "heard key p n =
     \<lparr>ann_root = Root (repeat_byte key) n,
      ann_signatures = [\<lparr>signing_public_key = repeat_byte key, destination_port = p, sig_bytes = repeat_byte 0\<rparr>],
      ann_receive_time = 40, ann_receive_order = 1\<rparr>"

definition example_router :: router_state where
  "example_router = (new_router example_crypto (repeat_byte 5))
     \<lparr>running := True, upload_connections := [(repeat_byte 9, 0), (repeat_byte 6, 1)],
      download_connections := [(repeat_byte 9, 0), (repeat_byte 6, 1)],
      ports := [(1, Some (repeat_byte 9)), (2, Some (repeat_byte 6))], parent := repeat_byte 9,
      announcements := [(repeat_byte 9, heard 9 4 1)], ordering := 1\<rparr>"

lemma example_env_simps [simp]:
  "env_crypto example_env = example_crypto" "env_now example_env = 100" "env_random example_env = 77"
  "env_sink_send example_env socket f = None" "env_local_open example_env"
  by (simp_all add: example_env_def)

lemma heard_simps [simp]:
  "ann_root (heard key p n) = Root (repeat_byte key) n" "coords (heard key p n) = [p]"
  "ann_receive_time (heard key p n) = 40" "ann_receive_order (heard key p n) = 1"
  "ann_signatures (heard key p n) \<noteq> []"
  "map signing_public_key (ann_signatures (heard key p n)) = [repeat_byte key]"
  "is_loop_of_child (heard key p n) k \<longleftrightarrow> repeat_byte key = k"
  by (simp_all add: heard_def coords_def is_loop_of_child_def eq_commute)

lemma heard_clean [simp]:
  "p \<noteq> 0 \<Longrightarrow> is_clean example_crypto (heard key p n) k = Some True \<longleftrightarrow> k = repeat_byte key"
  by (auto simp: is_clean_True_iff) (auto simp: heard_def signatures_valid_def)

lemma example_router_simps [simp]:
  "public_key example_router = repeat_byte 5" "private_key example_router = repeat_byte 5"
  "parent example_router = repeat_byte 9" "ordering example_router = 1"
  "peers example_router = [repeat_byte 9, repeat_byte 6]"
  "tree_announcement_of example_router k = (if k = repeat_byte 9 then Some (heard 9 4 1) else None)"
  "current_root example_router = Root (repeat_byte 9) 1" "coordinates_of example_router = [4]"
  "reparent_timer_expired now example_router" "paths example_router = []"
  "ascending_path example_router = None" "descending_path example_router = None"
  "candidate example_router = None" "sent example_router = []" "spawned example_router = []"
  "announcements example_router = [(repeat_byte 9, heard 9 4 1)]"
  "upload_connections example_router = [(repeat_byte 9, 0), (repeat_byte 6, 1)]"
  "download_connections example_router = [(repeat_byte 9, 0), (repeat_byte 6, 1)]"
  "running example_router" "delivered example_router = []"
  "port_of example_router (repeat_byte 9) = Some 1" "port_of example_router (repeat_byte 6) = Some 2"
  by (simp_all add: example_router_def port_of_def new_router_def peers_def hm_entries_def tree_announcement_of_def
      current_root_def coordinates_of_def current_announcement_def reparent_timer_expired_def)

lemma example_router_signed [simp]: "announcements_signed example_router"
  by (simp add: announcements_signed_def)

lemma example_router_replayed [simp]:
  "replayed example_router (heard key p n) k \<longleftrightarrow> k = repeat_byte 9 \<and> key = 9 \<and> n < 1"
  by (auto simp: replayed_def has_same_root_key_def replayed_old_sequence_def)

theorem next_tree_hop_best_witness:
  "next_tree_hop example_router [7] (repeat_byte 6) = Some (Some (repeat_byte 9))"
  using next_tree_hop_best [of example_router "[7]" "repeat_byte 6"]
  by (auto simp: best_hop_def hop_eligible_def distance_to_def get_common_prefix_def split: if_splits)

theorem parent_update_never_accepted_witness:
  "let r' = snd (handle_tree_announcement example_env (heard 9 4 2) (repeat_byte 9) example_router)
   in parent r' = repeat_byte 5 \<and> spawned r' = [Reparent True] \<and> sent r' = []"
  using parent_update_never_accepted [of example_env "heard 9 4 2" example_router]
  by simp

theorem stronger_root_followed_witness:
  "\<exists>r'. handle_tree_announcement example_env (heard 11 4 1) (repeat_byte 11) example_router = (Some (), r') \<and>
    parent r' = repeat_byte 11 \<and> current_root r' = Root (repeat_byte 11) 1 \<and> length (sent r') = 2"
  using stronger_root_followed [of example_env "heard 11 4 1" "repeat_byte 11" example_router]
  by (auto simp: announced_to_def)

theorem parent_selection_best_witness:
  "\<exists>r'. parent_selection example_env example_router = (Some False, r') \<and> parent r' = repeat_byte 9"
proof -
  have same: "reclaimed example_router = example_router"
    by (simp add: reclaimed_def)
  have eligible: "parent_eligible 100 example_router p a \<longleftrightarrow> p = repeat_byte 9 \<and> a = heard 9 4 1" for p a
    by (auto simp: parent_eligible_def ANNOUNCEMENT_TIMEOUT_def from_secs_def)
  have "clock_ok 100 example_router"
    by (simp add: clock_ok_def)
  then show ?thesis
    using parent_selection_best [of example_env example_router]
    by (auto simp: same eligible best_parent_def)
qed

end
