(* ===== verification/Router_Snek.thy ===== *)
theory Router_Snek
  imports Router_Tree
begin

text \<open>
  The virtual snake of \<open>src/router.rs\<close>: routing by key, bootstrapping, setting up and tearing
  down paths along the line of nodes sorted by key. A path leads from a node (its origin, the
  lower key) up to its ascending neighbour; every node on it holds an entry in \<open>paths\<close>.
\<close>

section \<open>Routing by key\<close>

definition dht_ordered :: "public_key \<Rightarrow> public_key \<Rightarrow> public_key \<Rightarrow> bool" where
  "dht_ordered a b c \<longleftrightarrow> a < b \<and> b < c"

text \<open>The best key found so far and the peer that leads to it.\<close>

type_synonym snek_best = "public_key \<times> public_key option"

text \<open>One round of the loops over ancestors: the two tests in sequence.\<close>

definition snek_consider :: "bool \<Rightarrow> public_key \<Rightarrow> public_key \<Rightarrow> public_key \<Rightarrow> snek_best \<Rightarrow> snek_best" where
  "snek_consider bootstrap dest peer key best =
     (let best1 = (if \<not> bootstrap \<and> key = dest \<and> fst best \<noteq> dest then (key, Some peer) else best)
      in if dht_ordered dest key (fst best1) then (key, Some peer) else best1)"

fun snek_hops_loop :: "bool \<Rightarrow> public_key \<Rightarrow> public_key \<Rightarrow> root_announcement_signature list \<Rightarrow> snek_best \<Rightarrow> snek_best" where
  "snek_hops_loop bootstrap dest peer [] best = best"
| "snek_hops_loop bootstrap dest peer (hop # hops) best =
     snek_hops_loop bootstrap dest peer hops
       (snek_consider bootstrap dest peer (signing_public_key hop) best)"

fun snek_announcements_loop ::
  "bool \<Rightarrow> public_key \<Rightarrow> (public_key \<times> tree_announcement) list \<Rightarrow> snek_best \<Rightarrow> snek_best" where
  "snek_announcements_loop bootstrap dest [] best = best"
| "snek_announcements_loop bootstrap dest ((peer, a) # rest) best =
     snek_announcements_loop bootstrap dest rest
       (snek_hops_loop bootstrap dest peer (ann_signatures a) best)"

fun snek_peers_loop :: "public_key list \<Rightarrow> snek_best \<Rightarrow> snek_best" where
  "snek_peers_loop [] best = best"
| "snek_peers_loop (peer # rest) best =
     snek_peers_loop rest (if fst best = peer then (peer, Some peer) else best)"

text \<open>
  The loop over the path table. \<open>None\<close> is a panic: an entry stamped in the future, or a chosen
  entry whose source port has no peer.
\<close>

fun snek_paths_loop ::
  "system_time \<Rightarrow> router_state \<Rightarrow> bool \<Rightarrow> public_key \<Rightarrow> (snek_path_index \<times> snek_path) list \<Rightarrow>
   snek_best \<Rightarrow> snek_best option" where
  "snek_paths_loop now r bootstrap dest [] best = Some best"
| "snek_paths_loop now r bootstrap dest ((key, entry) # rest) best = do {
     valid \<leftarrow> snek_path_valid now entry;
     if \<not> valid \<or> path_source entry = 0 then snek_paths_loop now r bootstrap dest rest best
     else if \<not> bootstrap \<and> \<not> path_active entry then snek_paths_loop now r bootstrap dest rest best
     else do {
       best1 \<leftarrow> (if \<not> bootstrap \<and> pi_public_key key = dest \<and> fst best \<noteq> dest
                 then map_option (\<lambda>p. (pi_public_key key, Some p)) (get_peer_on_port r (path_source entry))
                 else Some best);
       best2 \<leftarrow> (if dht_ordered dest (pi_public_key key) (fst best1)
                 then map_option (\<lambda>p. (pi_public_key key, Some p)) (get_peer_on_port r (path_source entry))
                 else Some best1);
       snek_paths_loop now r bootstrap dest rest best2
     }
   }"

text \<open>The start: this node's key, or the path to the root through the parent.\<close>

definition snek_start :: "router_state \<Rightarrow> public_key \<Rightarrow> bool \<Rightarrow> bool \<Rightarrow> snek_best" where
  "snek_start r dest bootstrap traffic =
     (let best = (public_key r, if traffic then None else Some (public_key r));
          via_root = (root_public_key (current_root r), Some (parent r))
      in if parent r \<noteq> public_key r then
           let best1 = (if bootstrap \<and> fst best = dest then via_root else best)
           in if dht_ordered (fst best1) dest (root_public_key (current_root r)) then via_root else best1
         else best)"

definition snek_best :: "system_time \<Rightarrow> router_state \<Rightarrow> public_key \<Rightarrow> bool \<Rightarrow> bool \<Rightarrow> snek_best option" where
  "snek_best now r dest bootstrap traffic =
     (let start = snek_start r dest bootstrap traffic;
          best1 = (if parent r \<noteq> public_key r
                   then snek_hops_loop bootstrap dest (parent r) (ann_signatures (current_announcement now r)) start
                   else start);
          best2 = snek_announcements_loop bootstrap dest (hm_entries (announcements r)) best1;
          best3 = snek_peers_loop (peers r) best2
      in snek_paths_loop now r bootstrap dest (hm_entries (paths r)) best3)"

definition next_snek_hop :: "system_time \<Rightarrow> router_state \<Rightarrow> public_key \<Rightarrow> bool \<Rightarrow> bool \<Rightarrow> public_key option option" where
  "next_snek_hop now r dest bootstrap traffic =
     (if \<not> bootstrap \<and> public_key r = dest then Some (Some (public_key r))
      else map_option snd (snek_best now r dest bootstrap traffic))"

section \<open>Tearing paths down\<close>

definition index_matches :: "public_key \<Rightarrow> snek_path_id \<Rightarrow> snek_path_index \<Rightarrow> bool" where
  "index_matches key path_id i \<longleftrightarrow> pi_public_key i = key \<and> pi_path_id i = path_id"

text \<open>The loop over the table: the entry to remove and the ports to forward the teardown to.\<close>

fun teardown_loop ::
  "port \<Rightarrow> public_key \<Rightarrow> snek_path_id \<Rightarrow> (snek_path_index \<times> snek_path) list \<Rightarrow>
   (snek_path_index \<times> port list) option" where
  "teardown_loop from path_key path_id [] = None"
| "teardown_loop from path_key path_id ((key, value) # rest) =
     (if index_matches path_key path_id key then
        if from = 0 then Some (key, [path_destination value, path_source value])
        else if from = path_source value then Some (key, [path_destination value])
        else if from = path_destination value then Some (key, [path_source value])
        else teardown_loop from path_key path_id rest
      else teardown_loop from path_key path_id rest)"

text \<open>The test on the ascending and the descending path.\<close>

definition teardown_hits :: "port \<Rightarrow> public_key \<Rightarrow> snek_path_id \<Rightarrow> snek_path option \<Rightarrow> bool" where
  "teardown_hits from key path_id p \<longleftrightarrow>
     (case p of
        None \<Rightarrow> False
      | Some e \<Rightarrow> index_matches key path_id (path_index e) \<and> (from = path_destination e \<or> from = 0))"

definition teardown_path :: "port \<Rightarrow> public_key \<Rightarrow> snek_path_id \<Rightarrow> port list router_act" where
  "teardown_path from path_key path_id = act_get (\<lambda>r.
     if teardown_hits from path_key path_id (ascending_path r) then
       let asc = the (ascending_path r)
       in act_seq (act_modify (\<lambda>r. r\<lparr>paths := hm_remove (path_index asc) (paths r), ascending_path := None\<rparr>))
            (act_ret [path_destination asc])
     else if teardown_hits from path_key path_id (descending_path r) then
       let desc = the (descending_path r)
       in act_seq (act_modify (\<lambda>r. r\<lparr>paths := hm_remove (path_index desc) (paths r), descending_path := None\<rparr>))
            (act_ret [path_destination desc])
     else
       (case teardown_loop from path_key path_id (hm_entries (paths r)) of
          Some (key, hops) \<Rightarrow>
            act_seq (act_modify (\<lambda>r. r\<lparr>paths := hm_remove key (paths r)\<rparr>)) (act_ret hops)
        | None \<Rightarrow> act_ret []))"

definition get_teardown :: "router_state \<Rightarrow> public_key \<Rightarrow> snek_path_id \<Rightarrow> snek_teardown" where
  "get_teardown r path_key path_id =
     \<lparr>td_root = current_root r, td_destination_key = path_key, td_path_id = path_id\<rparr>"

text \<open>Spawns the task; its body is \<open>run_teardown\<close>.\<close>

definition send_teardown_for_existing_path :: "port \<Rightarrow> public_key \<Rightarrow> snek_path_id \<Rightarrow> unit router_act" where
  "send_teardown_for_existing_path from path_key path_id = spawn (Send_Teardown from path_key path_id)"

definition run_teardown :: "env \<Rightarrow> port \<Rightarrow> public_key \<Rightarrow> snek_path_id \<Rightarrow> unit router_act" where
  "run_teardown E from path_key path_id = act_get (\<lambda>r.
     let frame = get_teardown r path_key path_id
     in act_bind (teardown_path from path_key path_id) (\<lambda>hops.
          act_for hops (\<lambda>next_hop. act_get (\<lambda>r.
            act_unwrap (get_peer_on_port r next_hop) (send_logged E (SnekTeardown frame))))))"

definition send_teardown_for_rejected_path :: "env \<Rightarrow> public_key \<Rightarrow> snek_path_id \<Rightarrow> port \<Rightarrow> unit router_act" where
  "send_teardown_for_rejected_path E path_key path_id via = act_get (\<lambda>r.
     let frame = get_teardown r path_key path_id
     in act_unwrap (get_peer_on_port r via) (send_logged E (SnekTeardown frame)))"

definition handle_teardown :: "port \<Rightarrow> snek_teardown \<Rightarrow> port list router_act" where
  "handle_teardown from rx = teardown_path from (td_destination_key rx) (td_path_id rx)"

section \<open>Bootstrapping\<close>

definition bootstrap_now :: "env \<Rightarrow> unit router_act" where
  "bootstrap_now E = act_get (\<lambda>r.
     if parent r = public_key r then act_ret ()
     else if (case ascending_path r of Some asc \<Rightarrow> path_root asc = current_root r | None \<Rightarrow> False)
     then act_ret ()
     else
       let frame = \<lparr>sb_root = current_root r, sb_destination_key = public_key r,
                    sb_source = coordinates_of r, sb_path_id = env_random E\<rparr>
       in act_unwrap (next_snek_hop (env_now E) r (sb_destination_key frame) True False) (\<lambda>hop.
            case hop of
              Some peer \<Rightarrow> send_logged E (SnekBootstrap frame) peer
            | None \<Rightarrow> act_ret ()))"

definition handle_bootstrap :: "env \<Rightarrow> snek_bootstrap \<Rightarrow> unit router_act" where
  "handle_bootstrap E frame = act_get (\<lambda>r.
     if current_root r = sb_root frame then
       let ack = \<lparr>ba_destination_coordinates = sb_source frame, ba_destination_key = sb_destination_key frame,
                  ba_source_coordinates = coordinates_of r, ba_source_key = public_key r,
                  ba_root = current_root r, ba_path_id = sb_path_id frame\<rparr>
       in act_unwrap (next_tree_hop r (ba_destination_coordinates ack) (public_key r)) (\<lambda>hop.
            case hop of
              Some peer \<Rightarrow> send_logged E (SnekBootstrapACK ack) peer
            | None \<Rightarrow> act_ret ())
     else act_ret ())"

text \<open>The conditions under which a bootstrap ACK is acted upon; \<open>None\<close> is a panic.\<close>

definition bootstrap_ack_update :: "system_time \<Rightarrow> router_state \<Rightarrow> snek_bootstrap_ack \<Rightarrow> bool option" where
  "bootstrap_ack_update now r ack =
     (if ba_source_key ack = public_key r then Some False
      else if ba_root ack \<noteq> current_root r then Some False
      else case ascending_path r of
        Some asc \<Rightarrow> do {
          valid \<leftarrow> snek_path_valid now asc;
          if valid then
            Some (if path_origin asc = ba_source_key ack \<and> ba_path_id ack \<noteq> pi_path_id (path_index asc) then True
                  else dht_ordered (public_key r) (ba_source_key ack) (path_origin asc))
          else Some (public_key r < ba_source_key ack)
        }
      | None \<Rightarrow> Some (public_key r < ba_source_key ack))"

definition handle_bootstrap_ack :: "env \<Rightarrow> snek_bootstrap_ack \<Rightarrow> unit router_act" where
  "handle_bootstrap_ack E ack = act_get (\<lambda>r.
     act_unwrap (bootstrap_ack_update (env_now E) r ack) (\<lambda>update.
       if \<not> update then act_ret ()
       else
         let setup = \<lparr>su_root = current_root r, su_destination = ba_source_coordinates ack,
                      su_destination_key = ba_source_key ack, su_source_key = public_key r,
                      su_path_id = ba_path_id ack\<rparr>
         in act_unwrap (next_tree_hop r (su_destination setup) (public_key r)) (\<lambda>next_hop.
              case next_hop of
                None \<Rightarrow> act_ret ()
              | Some next_peer \<Rightarrow>
                  if public_key r = next_peer then act_ret ()
                  else act_seq (send_logged E (SnekSetup setup) next_peer)
                    (act_unwrap (port_of r next_peer) (\<lambda>port.
                      let index = Snek_Path_Index (public_key r) (ba_path_id ack);
                          entry = \<lparr>path_index = index, path_origin = ba_source_key ack,
                                   path_target = ba_source_key ack, path_source = 0,
                                   path_destination = port, path_last_seen = env_now E,
                                   path_root = ba_root ack, path_active = False\<rparr>
                      in act_seq
                           (act_for (hm_entries (paths r)) (\<lambda>(dht_key, entry).
                              act_when (path_source entry = 0 \<and> pi_public_key dht_key \<noteq> ba_source_key ack)
                                (send_teardown_for_existing_path 0 (pi_public_key dht_key) (pi_path_id dht_key))))
                           (act_modify (\<lambda>r. r\<lparr>paths := hm_insert index entry (paths r),
                              candidate := Some (entry\<lparr>path_active := True\<rparr>)\<rparr>)))))))"

section \<open>Setting up paths\<close>

text \<open>The conditions under which the destination of a setup accepts it; \<open>None\<close> is a panic.\<close>

definition setup_update :: "system_time \<Rightarrow> router_state \<Rightarrow> snek_setup \<Rightarrow> bool option" where
  "setup_update now r rx =
     (if current_root r \<noteq> su_root rx then Some False
      else if \<not> su_source_key rx < public_key r then Some False
      else case descending_path r of
        Some desc \<Rightarrow> do {
          valid \<leftarrow> snek_path_valid now desc;
          if valid then
            Some (if pi_public_key (path_index desc) = su_source_key rx \<and>
                     su_path_id rx \<noteq> pi_path_id (path_index desc) then True
                  else dht_ordered (pi_public_key (path_index desc)) (su_source_key rx) (public_key r))
          else Some (su_source_key rx < public_key r)
        }
      | None \<Rightarrow> Some (su_source_key rx < public_key r))"

definition handle_setup_at_destination :: "env \<Rightarrow> port \<Rightarrow> snek_setup \<Rightarrow> unit router_act" where
  "handle_setup_at_destination E from rx = act_get (\<lambda>r.
     act_unwrap (setup_update (env_now E) r rx) (\<lambda>update.
       if \<not> update then send_teardown_for_rejected_path E (su_source_key rx) (su_path_id rx) from
       else
         let index = Snek_Path_Index (su_source_key rx) (su_path_id rx);
             entry = \<lparr>path_index = index, path_origin = su_source_key rx,
                      path_target = su_destination_key rx, path_source = from, path_destination = 0,
                      path_last_seen = env_now E, path_root = su_root rx, path_active = True\<rparr>;
             setup_ack = \<lparr>sa_root = su_root rx, sa_destination_key = su_source_key rx,
                          sa_path_id = su_path_id rx\<rparr>
         in act_seq
              (case descending_path r of
                 Some previous \<Rightarrow> send_teardown_for_existing_path 0
                   (pi_public_key (path_index previous)) (pi_path_id (path_index previous))
               | None \<Rightarrow> act_ret ())
              (act_seq
                (act_modify (\<lambda>r. r\<lparr>paths := hm_insert index entry (paths r), descending_path := Some entry\<rparr>))
                (act_get (\<lambda>r. act_unwrap (get_peer_on_port r (path_source entry))
                  (send_logged E (SnekSetupACK setup_ack)))))))"

definition handle_setup_in_between :: "env \<Rightarrow> port \<Rightarrow> snek_setup \<Rightarrow> port \<Rightarrow> unit router_act" where
  "handle_setup_in_between E from rx next_hop = act_get (\<lambda>r.
     act_unwrap (get_peer_on_port r next_hop) (\<lambda>next_peer.
       if next_peer = public_key r then
         send_teardown_for_rejected_path E (su_source_key rx) (su_path_id rx) from
       else
         let index = Snek_Path_Index (su_source_key rx) (su_path_id rx);
             entry = \<lparr>path_index = index, path_origin = su_source_key rx,
                      path_target = su_destination_key rx, path_source = from,
                      path_destination = next_hop, path_last_seen = env_now E,
                      path_root = su_root rx, path_active = False\<rparr>
         in act_seq (send_logged E (SnekSetup rx) next_peer)
              (act_modify (\<lambda>r. r\<lparr>paths := hm_insert index entry (paths r)\<rparr>))))"

definition handle_setup :: "env \<Rightarrow> port \<Rightarrow> snek_setup \<Rightarrow> port \<Rightarrow> unit router_act" where
  "handle_setup E from rx next_hop = act_get (\<lambda>r.
     act_seq
       (act_when (current_root r \<noteq> su_root rx)
         (send_teardown_for_rejected_path E (su_source_key rx) (su_path_id rx) from))
       (if hm_contains_key (paths r) (Snek_Path_Index (su_source_key rx) (su_path_id rx)) then
          act_seq (send_teardown_for_existing_path 0 (su_source_key rx) (su_path_id rx))
            (send_teardown_for_rejected_path E (su_source_key rx) (su_path_id rx) from)
        else if su_destination_key rx = public_key r then handle_setup_at_destination E from rx
        else handle_setup_in_between E from rx next_hop))"

text \<open>One round of the loop over the table in \<open>handle_setup_ack\<close>.\<close>

definition activate_entry :: "env \<Rightarrow> port \<Rightarrow> snek_setup_ack \<Rightarrow> snek_path_index \<Rightarrow> snek_path \<Rightarrow> unit router_act" where
  "activate_entry E from rx key entry =
     (if path_active entry \<or> pi_public_key key \<noteq> sa_destination_key rx \<or> pi_path_id key \<noteq> sa_path_id rx
      then act_ret ()
      else if from = path_destination entry \<or> from = 0 then
        act_seq
          (act_when (path_source entry \<noteq> 0) (act_get (\<lambda>r.
             act_unwrap (get_peer_on_port r (path_source entry)) (send_logged E (SnekSetupACK rx)))))
          (let active = entry\<lparr>path_active := True\<rparr>
           in act_seq (act_modify (\<lambda>r. r\<lparr>paths := hm_insert key active (paths r)\<rparr>))
                (act_get (\<lambda>r. act_when (candidate r = Some active)
                  (act_modify (\<lambda>r. r\<lparr>ascending_path := Some active, candidate := None\<rparr>)))))
      else act_ret ())"

definition handle_setup_ack :: "env \<Rightarrow> port \<Rightarrow> snek_setup_ack \<Rightarrow> unit router_act" where
  "handle_setup_ack E from rx = act_get (\<lambda>r.
     act_for (hm_entries (paths r)) (\<lambda>(key, entry). activate_entry E from rx key entry))"

section \<open>Maintenance\<close>

text \<open>The ascending path: tear it down when it has expired; the result is \<open>will_bootstrap\<close>.\<close>

definition maintain_ascending :: "env \<Rightarrow> bool router_act" where
  "maintain_ascending E = act_get (\<lambda>r.
     let can_bootstrap = (parent r \<noteq> public_key r \<and> root_public_key (current_root r) \<noteq> public_key r)
     in case ascending_path r of
          Some asc \<Rightarrow> act_unwrap (snek_path_valid (env_now E) asc) (\<lambda>valid.
            act_seq
              (act_when (\<not> valid) (send_teardown_for_existing_path 0
                 (pi_public_key (path_index asc)) (pi_path_id (path_index asc))))
              (act_ret (if path_root asc \<noteq> current_root r then can_bootstrap
                        else \<not> valid \<and> can_bootstrap)))
        | None \<Rightarrow> act_ret can_bootstrap)"

definition maintain_descending :: "env \<Rightarrow> unit router_act" where
  "maintain_descending E = act_get (\<lambda>r.
     case descending_path r of
       Some desc \<Rightarrow> act_unwrap (snek_path_valid (env_now E) desc) (\<lambda>valid.
         act_when (\<not> valid) (send_teardown_for_existing_path 0
           (pi_public_key (path_index desc)) (pi_path_id (path_index desc))))
     | None \<Rightarrow> act_ret ())"

definition maintain_inactive :: "env \<Rightarrow> unit router_act" where
  "maintain_inactive E = act_get (\<lambda>r.
     act_for (hm_entries (paths r)) (\<lambda>(index, path).
       if path_active path then act_ret ()
       else act_unwrap (duration_since (env_now E) (path_last_seen path)) (\<lambda>elapsed.
         act_when (from_secs 5 < elapsed)
           (send_teardown_for_existing_path 0 (pi_public_key index) (pi_path_id index)))))"

definition maintain_snek :: "env \<Rightarrow> unit router_act" where
  "maintain_snek E =
     act_bind (maintain_ascending E) (\<lambda>will_bootstrap.
       act_seq (maintain_descending E)
         (act_seq (maintain_inactive E)
           (act_when will_bootstrap (bootstrap_now E))))"

section \<open>Which key the loops choose\<close>

definition key_better :: "bool \<Rightarrow> public_key \<Rightarrow> public_key \<Rightarrow> public_key \<Rightarrow> bool" where
  "key_better bootstrap dest k b \<longleftrightarrow>
     \<not> bootstrap \<and> k = dest \<and> b \<noteq> dest \<or> dht_ordered dest k b"

interpretation snek_choice: preference "key_better bootstrap dest"
  by unfold_locales (auto simp: key_better_def dht_ordered_def)

lemma snek_consider_eq:
  "snek_consider bootstrap dest peer key best =
     (if key_better bootstrap dest key (fst best) then (key, Some peer) else best)"
  by (auto simp: snek_consider_def key_better_def dht_ordered_def Let_def)

text \<open>The loops as one choice among the keys this node knows, each with the peer that leads to it.\<close>

abbreviation snek_better :: "bool \<Rightarrow> public_key \<Rightarrow> snek_best \<Rightarrow> snek_best \<Rightarrow> bool" where
  "snek_better bootstrap dest x y \<equiv> key_better bootstrap dest (fst x) (fst y)"

definition signers_via :: "public_key \<Rightarrow> tree_announcement \<Rightarrow> snek_best list" where
  "signers_via peer a = map (\<lambda>hop. (signing_public_key hop, Some peer)) (ann_signatures a)"

lemma snek_hops_loop_eq:
  "snek_hops_loop bootstrap dest peer hops best =
     choose_best (snek_better bootstrap dest) (map (\<lambda>hop. (signing_public_key hop, Some peer)) hops) best"
  by (induction hops arbitrary: best) (simp_all add: snek_consider_eq)

lemma snek_announcements_loop_eq:
  "snek_announcements_loop bootstrap dest es best =
     choose_best (snek_better bootstrap dest) (concat (map (\<lambda>(p, a). signers_via p a) es)) best"
  by (induction bootstrap dest es best rule: snek_announcements_loop.induct)
    (simp_all add: snek_hops_loop_eq choose_best_append signers_via_def)

lemma snek_peers_loop_eq:
  "snek_peers_loop ps best = (if fst best \<in> set ps then (fst best, Some (fst best)) else best)"
  by (induction ps arbitrary: best) auto

text \<open>The entries of the path table the last loop looks at.\<close>

definition usable_entry :: "system_time \<Rightarrow> bool \<Rightarrow> snek_path \<Rightarrow> bool" where
  "usable_entry now bootstrap e \<longleftrightarrow>
     snek_path_valid now e = Some True \<and> path_source e \<noteq> 0 \<and> (bootstrap \<or> path_active e)"

lemma snek_paths_step:
  "snek_paths_loop now r bootstrap dest ((key, entry) # rest) best =
     (if snek_path_valid now entry = None then None
      else if usable_entry now bootstrap entry \<and> key_better bootstrap dest (pi_public_key key) (fst best) then
        (case get_peer_on_port r (path_source entry) of
           None \<Rightarrow> None
         | Some p \<Rightarrow> snek_paths_loop now r bootstrap dest rest (pi_public_key key, Some p))
      else snek_paths_loop now r bootstrap dest rest best)"
  by (auto simp: usable_entry_def key_better_def dht_ordered_def split: option.split)

definition path_ways ::
  "system_time \<Rightarrow> router_state \<Rightarrow> bool \<Rightarrow> (snek_path_index \<times> snek_path) list \<Rightarrow> snek_best list" where
  "path_ways now r bootstrap es =
     map (\<lambda>(k, e). (pi_public_key k, get_peer_on_port r (path_source e)))
       (filter (\<lambda>(k, e). usable_entry now bootstrap e) es)"

lemma snek_paths_loop_eq:
  "snek_paths_loop now r bootstrap dest es best = Some res \<Longrightarrow>
    res = choose_best (snek_better bootstrap dest) (path_ways now r bootstrap es) best"
proof (induction es arbitrary: best)
  case (Cons x es)
  obtain k e where x: "x = (k, e)" by (cases x)
  with Cons show ?case
    by (auto simp: snek_paths_step path_ways_def simp del: snek_paths_loop.simps(2) split: if_splits option.splits)
qed (simp add: path_ways_def)

text \<open>
  All keys this node knows a way to, with the peer to send to: the ancestors of the node by its
  parent, those of each peer by that peer, and the keys of usable paths by the peer at the port
  they come from.
\<close>

definition tree_ways :: "system_time \<Rightarrow> router_state \<Rightarrow> snek_best list" where
  "tree_ways now r =
     (if parent r \<noteq> public_key r then signers_via (parent r) (current_announcement now r) else []) @
     concat (map (\<lambda>(p, a). signers_via p a) (hm_entries (announcements r)))"

definition snek_keys :: "system_time \<Rightarrow> router_state \<Rightarrow> bool \<Rightarrow> public_key list" where
  "snek_keys now r bootstrap = map fst (tree_ways now r @ path_ways now r bootstrap (hm_entries (paths r)))"

lemma snek_best_eq:
  assumes "snek_best now r dest bootstrap traffic = Some best"
  shows "let tree = choose_best (snek_better bootstrap dest) (tree_ways now r) (snek_start r dest bootstrap traffic);
      direct = (if fst tree \<in> set (peers r) then (fst tree, Some (fst tree)) else tree)
    in best = choose_best (snek_better bootstrap dest) (path_ways now r bootstrap (hm_entries (paths r))) direct"
  using snek_paths_loop_eq [OF assms [unfolded snek_best_def Let_def]]
  by (simp add: tree_ways_def choose_best_append snek_announcements_loop_eq snek_hops_loop_eq snek_peers_loop_eq
      signers_via_def Let_def)

lemma snek_best_key:
  assumes "snek_best now r dest bootstrap traffic = Some best"
  shows "fst best = choose_best (key_better bootstrap dest) (snek_keys now r bootstrap)
    (fst (snek_start r dest bootstrap traffic))"
proof -
  have direct: "fst (if c then (fst t, w) else t) = fst t" for c and t :: snek_best and w
    by simp
  show ?thesis
    using snek_best_eq [OF assms]
    by (simp add: snek_keys_def choose_best_append choose_best_keys direct Let_def)
qed

text \<open>The peer is the one of the first way to the key, unless the key is that of a peer.\<close>

lemma snek_best_way:
  assumes "snek_best now r dest bootstrap traffic = Some (k, p)"
  shows "case map_of (snek_start r dest bootstrap traffic # tree_ways now r) k of
      Some w \<Rightarrow> p = (if k \<in> set (peers r) then Some k else w)
    | None \<Rightarrow> map_of (path_ways now r bootstrap (hm_entries (paths r))) k = Some p"
proof -
  let ?start = "snek_start r dest bootstrap traffic" and ?paths = "path_ways now r bootstrap (hm_entries (paths r))"
  define t where "t = choose_best (snek_better bootstrap dest) (tree_ways now r) ?start"
  define d where "d = (if fst t \<in> set (peers r) then (fst t, Some (fst t)) else t)"
  have t: "map_of (?start # tree_ways now r) (fst t) = Some (snd t)"
    by (rule snek_choice.choose_best_first [of bootstrap dest]) (simp add: t_def)
  have best: "choose_best (snek_better bootstrap dest) ?paths d = (k, p)"
    using snek_best_eq [OF assms] by (simp add: Let_def t_def d_def)
  have first: "map_of (d # ?paths) k = Some p"
    using best by (rule snek_choice.choose_best_first)
  have d: "fst d = fst t"
    by (simp add: d_def)
  have "k = choose_best (key_better bootstrap dest) (map fst ?paths) (fst d)"
    using choose_best_keys [of "key_better bootstrap dest" ?paths d] by (simp add: best)
  then have k: "k = fst t \<or> key_better bootstrap dest k (fst t)"
    using snek_choice.choose_best_improves d by simp
  show ?thesis
  proof (cases "k = fst t")
    case True
    then have "p = snd d"
      using first d by (cases d) auto
    then show ?thesis
      using True t by (simp add: d_def split: option.split)
  next
    case False
    have "fst t = choose_best (key_better bootstrap dest) (map fst (tree_ways now r)) (fst ?start)"
      by (simp add: t_def choose_best_keys)
    then have "\<not> key_better bootstrap dest c (fst t)" if "c = fst ?start \<or> c \<in> set (map fst (tree_ways now r))" for c
      using that snek_choice.choose_best_unbeaten snek_choice.choose_best_start by metis
    then have "map_of (?start # tree_ways now r) k = None"
      using k False by (auto simp: map_of_eq_None_iff)
    moreover have "map_of ?paths k = Some p"
      using first False d by (cases d) auto
    ultimately show ?thesis by simp
  qed
qed

section \<open>Frames move towards their key\<close>

text \<open>
  What holds of the best key through all loops: it is still this node's own, with no peer
  chosen, or it lies between the destination and this node's key (between the destination and
  the root's, for a destination above this node).
\<close>

definition towards :: "public_key \<Rightarrow> public_key \<Rightarrow> snek_best \<Rightarrow> bool" where
  "towards own dest best \<longleftrightarrow>
     best = (own, None) \<or> snd best \<noteq> None \<and> dest \<le> fst best \<and> (dest < own \<longrightarrow> fst best < own) \<and> fst best \<noteq> own"

lemma towards_better:
  "own \<noteq> dest \<Longrightarrow> towards own dest best \<Longrightarrow> key_better bootstrap dest key (fst best) \<Longrightarrow>
    fst best = own \<or> dest < own \<or> key \<noteq> own \<Longrightarrow> towards own dest (key, Some p)"
  by (auto simp: towards_def key_better_def dht_ordered_def)

lemma not_better_own:
  "own \<noteq> dest \<Longrightarrow> towards own dest best \<Longrightarrow> key_better bootstrap dest key (fst best) \<Longrightarrow>
    own < dest \<Longrightarrow> key \<noteq> own"
  by (auto simp: towards_def key_better_def dht_ordered_def)

lemma towards_step:
  assumes "own \<noteq> dest" and "towards own dest best" and "key_better bootstrap dest key (fst best)"
  shows "towards own dest (key, Some p)"
  using towards_better [OF assms] not_better_own [OF assms] assms(1) by (meson neqE)

lemma towards_hops:
  "own \<noteq> dest \<Longrightarrow> towards own dest best \<Longrightarrow> towards own dest (snek_hops_loop bootstrap dest peer hops best)"
  by (induction hops arbitrary: best) (auto simp: snek_consider_eq intro: towards_step)

lemma towards_announcements:
  "own \<noteq> dest \<Longrightarrow> towards own dest best \<Longrightarrow> towards own dest (snek_announcements_loop bootstrap dest es best)"
  by (induction bootstrap dest es best rule: snek_announcements_loop.induct) (auto intro: towards_hops)

lemma towards_peers:
  "own \<notin> set ps \<Longrightarrow> towards own dest best \<Longrightarrow> towards own dest (snek_peers_loop ps best)"
  by (auto simp: snek_peers_loop_eq towards_def)

lemma towards_paths:
  "own \<noteq> dest \<Longrightarrow> towards own dest best \<Longrightarrow>
    snek_paths_loop now r bootstrap dest es best = Some res \<Longrightarrow> towards own dest res"
proof (induction es arbitrary: best)
  case (Cons x es)
  obtain k e where x: "x = (k, e)" by (cases x)
  show ?case
  proof (cases "usable_entry now bootstrap e \<and> key_better bootstrap dest (pi_public_key k) (fst best)")
    case True
    then have "towards own dest (pi_public_key k, Some p)" for p
      using Cons.prems towards_step by blast
    then show ?thesis
      using Cons True by (auto simp: x snek_paths_step simp del: snek_paths_loop.simps(2) split: if_splits option.splits)
  next
    case False
    then show ?thesis
      using Cons by (auto simp: x snek_paths_step simp del: snek_paths_loop.simps(2) split: if_splits)
  qed
qed simp

lemma towards_start: "public_key r \<noteq> dest \<Longrightarrow> towards (public_key r) dest (snek_start r dest False True)"
  by (auto simp: snek_start_def towards_def dht_ordered_def Let_def)

lemma snek_best_towards:
  assumes "public_key r \<noteq> dest" and "public_key r \<notin> set (peers r)"
    and "snek_best now r dest False True = Some best"
  shows "towards (public_key r) dest best"
proof -
  have "towards (public_key r) dest (snek_peers_loop (peers r) (snek_announcements_loop False dest es
      (if c then snek_hops_loop False dest p hops (snek_start r dest False True) else snek_start r dest False True)))"
    for es c p hops
    using assms by (auto intro!: towards_peers towards_announcements towards_hops towards_start)
  then show ?thesis
    using assms(1,3) unfolding snek_best_def Let_def by (blast intro: towards_paths)
qed

text \<open>
  C17: snake routing picks the closest known key and the peer that leads to it. When the hop for a
  data frame is computed without panic, the key it leads to is the destination itself if this
  node knows a way there; otherwise no key it knows lies between the destination and the chosen
  key. If a hop is chosen, its key is at or above the destination, and below this node's own key
  when the destination is; if none is chosen the key is this node's own. The hop is the peer the
  key is known by: a peer with that key; else the parent, if the key is that of the root the
  search starts from or of an ancestor of this node; else the first peer with that ancestor;
  else the peer at the port by which the first usable path with that key enters.
\<close>

theorem snek_hop_towards_destination:
  assumes "public_key r \<noteq> dest" and "public_key r \<notin> set (peers r)"
    and "snek_best now r dest False True = Some (k, p)"
  shows "let root = root_public_key (current_root r);
      start = (if parent r \<noteq> public_key r \<and> public_key r < dest \<and> dest < root then (root, Some (parent r))
        else (public_key r, None))
    in next_snek_hop now r dest False True = Some p \<and>
      (dest \<in> set (snek_keys now r False) \<longrightarrow> k = dest) \<and>
      (\<forall>c \<in> set (snek_keys now r False). \<not> (dest < c \<and> c < k)) \<and>
      (if p = None then k = public_key r
       else dest \<le> k \<and> k \<noteq> public_key r \<and> (dest < public_key r \<longrightarrow> k < public_key r)) \<and>
      (case map_of (start # tree_ways now r) k of
         Some way \<Rightarrow> p = (if k \<in> set (peers r) then Some k else way)
       | None \<Rightarrow> map_of (path_ways now r False (hm_entries (paths r))) k = Some p)"
proof -
  let ?better = "key_better False dest"
  have key: "k = choose_best ?better (snek_keys now r False) (fst (snek_start r dest False True))"
    using snek_best_key [OF assms(3)] by simp
  have unbeaten: "\<not> ?better c k" if "c \<in> set (snek_keys now r False)" for c
    unfolding key using that by (rule snek_choice.choose_best_unbeaten)
  have start: "snek_start r dest False True = (if parent r \<noteq> public_key r \<and> public_key r < dest \<and>
      dest < root_public_key (current_root r) then (root_public_key (current_root r), Some (parent r))
    else (public_key r, None))"
    by (simp add: snek_start_def dht_ordered_def Let_def)
  have t: "towards (public_key r) dest (k, p)"
    using assms by (rule snek_best_towards)
  then show ?thesis
    using assms unbeaten snek_best_way [OF assms(3), unfolded start] unfolding Let_def
    by (intro conjI) (auto simp: next_snek_hop_def towards_def key_better_def dht_ordered_def)
qed

section \<open>Bootstraps always have a next hop\<close>

text \<open>No entry is stamped in the future, and every source port of an entry has its peer.\<close>

definition paths_routable :: "system_time \<Rightarrow> router_state \<Rightarrow> bool" where
  "paths_routable now r \<longleftrightarrow>
     (\<forall>(k, e) \<in> set (hm_entries (paths r)).
        path_last_seen e \<le> now \<and> (path_source e \<noteq> 0 \<longrightarrow> get_peer_on_port r (path_source e) \<noteq> None))"

lemma hops_loop_peer: "snd best \<noteq> None \<Longrightarrow> snd (snek_hops_loop bootstrap dest peer hops best) \<noteq> None"
  by (induction hops arbitrary: best) (simp_all add: snek_consider_eq)

lemma announcements_loop_peer:
  "snd best \<noteq> None \<Longrightarrow> snd (snek_announcements_loop bootstrap dest es best) \<noteq> None"
proof (induction bootstrap dest es best rule: snek_announcements_loop.induct)
  case (2 bootstrap dest peer a rest best)
  show ?case
    using "2.IH" [OF hops_loop_peer [OF "2.prems"]] by simp
qed simp

lemma peers_loop_peer: "snd best \<noteq> None \<Longrightarrow> snd (snek_peers_loop ps best) \<noteq> None"
  by (simp add: snek_peers_loop_eq)

lemma paths_loop_returns:
  "(\<forall>(k, e) \<in> set es. path_last_seen e \<le> now \<and>
      (path_source e \<noteq> 0 \<longrightarrow> get_peer_on_port r (path_source e) \<noteq> None)) \<Longrightarrow>
    \<exists>res. snek_paths_loop now r bootstrap dest es best = Some res \<and> (snd best \<noteq> None \<longrightarrow> snd res \<noteq> None)"
proof (induction es arbitrary: best)
  case (Cons x es)
  obtain k e where x: "x = (k, e)" by (cases x)
  then have valid: "snek_path_valid now e \<noteq> None"
    and live: "path_source e \<noteq> 0 \<Longrightarrow> \<exists>p. get_peer_on_port r (path_source e) = Some p"
    using Cons.prems by (auto simp: snek_path_valid_None_iff)
  have rest: "\<exists>res. snek_paths_loop now r bootstrap dest es b = Some res \<and> (snd b \<noteq> None \<longrightarrow> snd res \<noteq> None)" for b
    using Cons by simp
  show ?case
  proof (cases "usable_entry now bootstrap e \<and> key_better bootstrap dest (pi_public_key k) (fst best)")
    case True
    then obtain p where p: "get_peer_on_port r (path_source e) = Some p"
      using live by (auto simp: usable_entry_def)
    obtain res where "snek_paths_loop now r bootstrap dest es (pi_public_key k, Some p) = Some res"
      and "snd res \<noteq> None"
      using rest [of "(pi_public_key k, Some p)"] by auto
    then show ?thesis
      using True valid p by (cases res) (auto simp: x snek_paths_step simp del: snek_paths_loop.simps(2))
  next
    case False
    then show ?thesis
      using rest [of best] valid by (auto simp: x snek_paths_step simp del: snek_paths_loop.simps(2))
  qed
qed simp

lemma snek_best_returns:
  assumes "paths_routable now r"
  shows "\<exists>best. snek_best now r dest bootstrap traffic = Some best \<and> (\<not> traffic \<longrightarrow> snd best \<noteq> None)"
proof -
  have start: "\<not> traffic \<Longrightarrow> snd (snek_start r dest bootstrap traffic) \<noteq> None"
    by (simp add: snek_start_def Let_def)
  have loops: "\<not> traffic \<Longrightarrow> snd (snek_peers_loop (peers r) (snek_announcements_loop bootstrap dest es
      (if c then snek_hops_loop bootstrap dest p hops (snek_start r dest bootstrap traffic)
       else snek_start r dest bootstrap traffic))) \<noteq> None" for es c p hops
    using start hops_loop_peer [of "snek_start r dest bootstrap traffic"]
    by (intro peers_loop_peer announcements_loop_peer) (cases c; auto)
  show ?thesis
    unfolding snek_best_def Let_def
    using paths_loop_returns [OF assms [unfolded paths_routable_def]] loops by blast
qed

text \<open>
  C31: a bootstrap always has a next hop. When the path table is routable the search neither
  panics nor comes back empty, so the \<open>unwrap\<close> on its result in \<open>handle_frame\<close> is safe; for
  data frames the search returns too, possibly without a hop.
\<close>

theorem bootstrap_has_next_hop:
  assumes "paths_routable now r"
  shows "(\<exists>p. next_snek_hop now r dest True False = Some (Some p)) \<and>
    (\<exists>hop. next_snek_hop now r dest bootstrap traffic = Some hop)"
  using snek_best_returns [OF assms, of dest True False] snek_best_returns [OF assms, of dest bootstrap traffic]
  by (auto simp: next_snek_hop_def)

section \<open>Teardowns\<close>

lemma index_matches_iff: "index_matches key path_id i \<longleftrightarrow> i = Snek_Path_Index key path_id"
  by (cases i) (auto simp: index_matches_def)

lemma teardown_loop_None:
  "\<forall>v. (Snek_Path_Index key path_id, v) \<notin> set es \<Longrightarrow> teardown_loop from key path_id es = None"
  by (induction es) (auto simp: index_matches_iff)

lemma teardown_loop_eq:
  assumes "distinct (map fst es)"
  shows "teardown_loop from key path_id es =
    (case map_of es (Snek_Path_Index key path_id) of
       None \<Rightarrow> None
     | Some v \<Rightarrow>
         if from = 0 then Some (Snek_Path_Index key path_id, [path_destination v, path_source v])
         else if from = path_source v then Some (Snek_Path_Index key path_id, [path_destination v])
         else if from = path_destination v then Some (Snek_Path_Index key path_id, [path_source v])
         else None)"
  using assms
proof (induction es)
  case (Cons x es)
  obtain k v where x: "x = (k, v)" by (cases x)
  show ?case
  proof (cases "k = Snek_Path_Index key path_id")
    case True
    then have "teardown_loop from key path_id es = None"
      using Cons.prems by (intro teardown_loop_None) (force simp: x)
    with True show ?thesis by (simp add: x index_matches_iff)
  next
    case False
    with Cons show ?thesis by (simp add: x index_matches_iff)
  qed
qed simp

lemma teardown_loop_lookup:
  assumes "hm_wf m"
  shows "teardown_loop from key path_id (hm_entries m) =
    (case hm_get m (Snek_Path_Index key path_id) of
       None \<Rightarrow> None
     | Some v \<Rightarrow>
         if from = 0 then Some (Snek_Path_Index key path_id, [path_destination v, path_source v])
         else if from = path_source v then Some (Snek_Path_Index key path_id, [path_destination v])
         else if from = path_destination v then Some (Snek_Path_Index key path_id, [path_source v])
         else None)"
  using assms teardown_loop_eq [of m "from" key path_id] by (simp add: hm_wf_def hm_entries_def hm_get_def)

text \<open>The hops a teardown of an entry is passed on to.\<close>

definition teardown_hops :: "port \<Rightarrow> snek_path \<Rightarrow> port list" where
  "teardown_hops from e =
     (if from = 0 then [path_destination e, path_source e]
      else if from = path_source e then [path_destination e] else [path_source e])"

lemma teardown_hits_index:
  "teardown_hits from key path_id (Some e) \<Longrightarrow> path_index e = Snek_Path_Index key path_id"
  by (simp add: teardown_hits_def index_matches_iff)

lemma teardown_path_run:
  assumes "hm_wf (paths r)"
  shows "teardown_path from key path_id r =
    (let i = Snek_Path_Index key path_id
     in if teardown_hits from key path_id (ascending_path r)
        then (Some [path_destination (the (ascending_path r))],
          r\<lparr>paths := hm_remove i (paths r), ascending_path := None\<rparr>)
        else if teardown_hits from key path_id (descending_path r)
        then (Some [path_destination (the (descending_path r))],
          r\<lparr>paths := hm_remove i (paths r), descending_path := None\<rparr>)
        else case hm_get (paths r) i of
          Some e \<Rightarrow>
            if from \<in> {0, path_source e, path_destination e}
            then (Some (teardown_hops from e), r\<lparr>paths := hm_remove i (paths r)\<rparr>)
            else (Some [], r)
        | None \<Rightarrow> (Some [], r))"
proof -
  have none: "\<not> teardown_hits from key path_id None"
    by (simp add: teardown_hits_def)
  have "path_index (the (ascending_path r)) = Snek_Path_Index key path_id"
    if "teardown_hits from key path_id (ascending_path r)"
    using that none teardown_hits_index by (cases "ascending_path r") auto
  moreover have "path_index (the (descending_path r)) = Snek_Path_Index key path_id"
    if "teardown_hits from key path_id (descending_path r)"
    using that none teardown_hits_index by (cases "descending_path r") auto
  ultimately show ?thesis
    by (auto simp: teardown_path_def act_defs Let_def teardown_loop_lookup [OF assms] teardown_hops_def
        split: option.split)
qed

text \<open>
  C25: what a teardown removes and where it goes. Tearing down a path always returns. A request
  that is local (port zero) or comes from the destination port of the ascending path drops that
  path, if it is the one named, with its entry, and is passed on to its destination port;
  otherwise the same holds of the descending path. Otherwise the entry of the path is dropped if
  the request is local, and passed on to both its ports, or if it comes from one of its ports,
  and passed on to the other one. A request from any other port, or for an unknown path, changes
  nothing and is passed on to nobody.
\<close>

theorem teardown_path_effect:
  assumes "hm_wf (paths r)"
  shows "let i = Snek_Path_Index key path_id; rest = hm_remove i (paths r);
      run = teardown_path from key path_id r;
      up = (\<exists>a. ascending_path r = Some a \<and> path_index a = i \<and> (from = 0 \<or> from = path_destination a));
      down = (\<not> up \<and> (\<exists>d. descending_path r = Some d \<and> path_index d = i \<and> (from = 0 \<or> from = path_destination d)))
    in if up then
         run = (Some [path_destination (the (ascending_path r))], r\<lparr>paths := rest, ascending_path := None\<rparr>)
       else if down then
         run = (Some [path_destination (the (descending_path r))], r\<lparr>paths := rest, descending_path := None\<rparr>)
       else (hm_get (paths r) i = None \<longrightarrow> run = (Some [], r)) \<and>
         (\<forall>e. hm_get (paths r) i = Some e \<longrightarrow> run =
           (if from = 0 then (Some [path_destination e, path_source e], r\<lparr>paths := rest\<rparr>)
            else if from = path_source e then (Some [path_destination e], r\<lparr>paths := rest\<rparr>)
            else if from = path_destination e then (Some [path_source e], r\<lparr>paths := rest\<rparr>)
            else (Some [], r)))"
proof -
  have hits: "teardown_hits from key path_id p \<longleftrightarrow>
      (\<exists>e. p = Some e \<and> path_index e = Snek_Path_Index key path_id \<and> (from = 0 \<or> from = path_destination e))" for p
    by (auto simp: teardown_hits_def index_matches_iff split: option.split)
  show ?thesis
    unfolding Let_def hits [symmetric]
    by (cases "hm_get (paths r) (Snek_Path_Index key path_id)")
      (simp_all add: teardown_path_run [OF assms] teardown_hops_def Let_def)
qed

section \<open>Invariants and the operations of the snake\<close>

text \<open>Operations that only send and schedule keep every invariant that does not look at these effects.\<close>

context frame_sends
begin

lemma preserves_send_teardown_existing [preserve]:
  "preserves I (send_teardown_for_existing_path from key path_id)"
  unfolding send_teardown_for_existing_path_def by (intro preserve)

lemma preserves_send_teardown_rejected [preserve]:
  "preserves I (send_teardown_for_rejected_path E key path_id via)"
  unfolding send_teardown_for_rejected_path_def Let_def by (intro preserve)

lemma preserves_run_teardown:
  "preserves I (teardown_path from key path_id) \<Longrightarrow> preserves I (run_teardown E from key path_id)"
  unfolding run_teardown_def Let_def by (intro preserve)

lemma preserves_maintain_with: "preserves I (bootstrap_now E) \<Longrightarrow> preserves I (maintain_snek E)"
  unfolding maintain_snek_def maintain_ascending_def maintain_descending_def maintain_inactive_def Let_def
  by (intro preserve)

end

context plain_sends
begin

lemma preserves_bootstrap_now [preserve]: "preserves I (bootstrap_now E)"
  unfolding bootstrap_now_def Let_def by (intro preserve)

lemma preserves_handle_bootstrap [preserve]: "preserves I (handle_bootstrap E frame)"
  unfolding handle_bootstrap_def Let_def by (intro preserve)

lemma preserves_maintain_snek [preserve]: "preserves I (maintain_snek E)"
  by (intro preserves_maintain_with preserve)

end

text \<open>An invariant that does not look at the paths either.\<close>

locale snek_insensitive = plain_sends +
  assumes inv_snek: "I r \<Longrightarrow> I (r\<lparr>ascending_path := a, descending_path := d, paths := ps, candidate := c\<rparr>)"
begin

lemma inv_paths: "I r \<Longrightarrow> I (r\<lparr>paths := ps\<rparr>)"
  using inv_snek [where a = "ascending_path r" and d = "descending_path r" and ps = "ps" and c = "candidate r"] by force

lemma inv_ascending: "I r \<Longrightarrow> I (r\<lparr>ascending_path := a\<rparr>)"
  using inv_snek [where a = "a" and d = "descending_path r" and ps = "paths r" and c = "candidate r"] by force

lemma inv_descending: "I r \<Longrightarrow> I (r\<lparr>descending_path := d\<rparr>)"
  using inv_snek [where a = "ascending_path r" and d = "d" and ps = "paths r" and c = "candidate r"] by force

lemma inv_candidate: "I r \<Longrightarrow> I (r\<lparr>candidate := c\<rparr>)"
  using inv_snek [where a = "ascending_path r" and d = "descending_path r" and ps = "paths r" and c = "c"] by force

lemmas inv_snek_fields = inv_paths inv_ascending inv_descending inv_candidate

lemma preserves_teardown_path [preserve]: "preserves I (teardown_path from key path_id)"
  unfolding teardown_path_def Let_def by (intro preserve preserves_modify inv_snek_fields)

lemma preserves_handle_bootstrap_ack [preserve]: "preserves I (handle_bootstrap_ack E ack)"
  unfolding handle_bootstrap_ack_def Let_def by (intro preserve preserves_modify inv_snek_fields)

lemma preserves_handle_setup [preserve]: "preserves I (handle_setup E from rx next_hop)"
  unfolding handle_setup_def handle_setup_at_destination_def handle_setup_in_between_def Let_def
  by (intro preserve preserves_modify inv_snek_fields)

lemma preserves_handle_setup_ack [preserve]: "preserves I (handle_setup_ack E from rx)"
  unfolding handle_setup_ack_def activate_entry_def Let_def
  by (intro preserve preserves_modify inv_snek_fields)

end

section \<open>Examples\<close>

text \<open>The example router with a descending path, started by node 3 and entering through peer 6.\<close>

definition example_down :: snek_path where
  "example_down =
     \<lparr>path_index = Snek_Path_Index (repeat_byte 3) 8, path_origin = repeat_byte 3,
      path_target = repeat_byte 5, path_source = 2, path_destination = 0, path_last_seen = 90,
      path_root = Root (repeat_byte 9) 1, path_active = True\<rparr>"

definition example_snek :: router_state where
  "example_snek = example_router\<lparr>paths := [(path_index example_down, example_down)],
     descending_path := Some example_down\<rparr>"

lemma example_down_simps [simp]:
  "path_index example_down = Snek_Path_Index (repeat_byte 3) 8" "path_origin example_down = repeat_byte 3"
  "path_target example_down = repeat_byte 5" "path_source example_down = 2"
  "path_destination example_down = 0" "path_last_seen example_down = 90"
  "path_root example_down = Root (repeat_byte 9) 1" "path_active example_down"
  by (simp_all add: example_down_def)

lemma get_peer_example [simp]:
  "get_peer_on_port example_router 1 = Some (repeat_byte 9)"
  "get_peer_on_port example_router 2 = Some (repeat_byte 6)"
  "get_peer_on_port example_router 0 = Some (repeat_byte 5)"
  by (simp_all add: get_peer_on_port_def example_router_def new_router_def)

lemma example_snek_neutral [simp]:
  "public_key example_snek = repeat_byte 5" "parent example_snek = repeat_byte 9"
  "get_peer_on_port example_snek = get_peer_on_port example_router" "peers example_snek = peers example_router"
  "current_root example_snek = Root (repeat_byte 9) 1" "coordinates_of example_snek = [4]"
  "port_of example_snek = port_of example_router" "sent example_snek = []" "spawned example_snek = []"
  "announcements example_snek = announcements example_router"
  "paths example_snek = [(Snek_Path_Index (repeat_byte 3) 8, example_down)]"
  "ascending_path example_snek = None" "descending_path example_snek = Some example_down"
  "candidate example_snek = None" "upload_connections example_snek = upload_connections example_router"
  "tree_announcement_of example_snek = tree_announcement_of example_router"
  "announcements_signed example_snek"
proof -
  show ann: "tree_announcement_of example_snek = tree_announcement_of example_router"
    by (simp add: example_snek_def tree_announcement_of_def fun_eq_iff)
  have "current_announcement now example_snek = current_announcement now example_router" for now
    by (simp add: current_announcement_def ann) (simp add: example_snek_def)
  then have "current_root example_snek = current_root example_router"
    "coordinates_of example_snek = coordinates_of example_router"
    by (simp_all only: current_root_def coordinates_of_def)
  then show "current_root example_snek = Root (repeat_byte 9) 1" "coordinates_of example_snek = [4]"
    by simp_all
  show "announcements_signed example_snek"
    by (simp add: announcements_signed_def ann)
qed (simp_all add: example_snek_def get_peer_on_port_def peers_def port_of_def fun_eq_iff)

theorem snek_hop_towards_destination_witness:
  "next_snek_hop 100 example_snek (repeat_byte 3) False True = Some (Some (repeat_byte 6))"
proof -
  have "snek_best 100 example_snek (repeat_byte 3) False True = Some (repeat_byte 3, Some (repeat_byte 6))"
    by (simp add: snek_best_def snek_start_def dht_ordered_def hm_entries_def snek_consider_def heard_def
        current_announcement_def snek_path_valid_def duration_since_def SNEK_EXPIRY_PERIOD_def from_secs_def)
  then show ?thesis
    using snek_hop_towards_destination [of example_snek "repeat_byte 3" 100 "repeat_byte 3" "Some (repeat_byte 6)"]
    by simp
qed

theorem bootstrap_has_next_hop_witness:
  "\<exists>p. next_snek_hop 100 example_snek (repeat_byte 5) True False = Some (Some p)"
  using bootstrap_has_next_hop [of 100 example_snek "repeat_byte 5"]
  by (simp add: paths_routable_def hm_entries_def)

theorem teardown_path_effect_witness:
  "let up = example_down\<lparr>path_index := Snek_Path_Index (repeat_byte 5) 7, path_source := 0, path_destination := 1\<rparr>;
       r = example_snek\<lparr>ascending_path := Some up\<rparr>
   in fst (teardown_path 1 (repeat_byte 5) 7 r) = Some [1] \<and>
      ascending_path (snd (teardown_path 1 (repeat_byte 5) 7 r)) = None \<and>
      fst (teardown_path 2 (repeat_byte 3) 8 r) = Some [0] \<and>
      descending_path (snd (teardown_path 2 (repeat_byte 3) 8 r)) = Some example_down"
proof -
  let ?r = "example_snek\<lparr>ascending_path := Some (example_down\<lparr>path_index := Snek_Path_Index (repeat_byte 5) 7,
    path_source := 0, path_destination := 1\<rparr>)\<rparr>"
  have "hm_wf (paths ?r)"
    by (simp add: hm_wf_def)
  then show ?thesis
    using teardown_path_effect [of ?r "repeat_byte 5" 7 1] teardown_path_effect [of ?r "repeat_byte 3" 8 2]
    by (simp add: Let_def)
qed

end
