(* ===== verification/Snek_Invariant.thy ===== *)
theory Snek_Invariant
  imports Router_Snek
begin

text \<open>
  The invariant of the virtual snake and its preservation by every operation of
  \<open>Router_Snek\<close>, and what the handshake of setups and ACKs, the rejection of setups and the
  teardowns do to the ascending and the descending path.
\<close>

section \<open>The invariant\<close>

text \<open>The ascending path starts here and leads to a higher key; the descending one ends here.\<close>

definition up_path :: "public_key \<Rightarrow> snek_path \<Rightarrow> bool" where
  "up_path own e \<longleftrightarrow> path_active e \<and> path_source e = 0 \<and> pi_public_key (path_index e) = own \<and>
     own < path_origin e \<and> path_target e = path_origin e"

definition down_path :: "public_key \<Rightarrow> snek_path \<Rightarrow> bool" where
  "down_path own e \<longleftrightarrow> path_active e \<and> path_destination e = 0 \<and> path_target e = own \<and>
     path_origin e = pi_public_key (path_index e) \<and> path_origin e < own"

definition paths_indexed :: "(snek_path_index, snek_path) hash_map \<Rightarrow> bool" where
  "paths_indexed m \<longleftrightarrow> hm_wf m \<and> (\<forall>k e. hm_get m k = Some e \<longrightarrow> path_index e = k)"

definition snek_inv :: "public_key \<Rightarrow> router_state \<Rightarrow> bool" where
  "snek_inv own r \<longleftrightarrow> public_key r = own \<and> paths_indexed (paths r) \<and>
     pred_option (up_path own) (ascending_path r) \<and> pred_option (up_path own) (candidate r) \<and>
     pred_option (down_path own) (descending_path r)"

lemma paths_indexed_Nil [simp]: "paths_indexed []"
  by (simp add: paths_indexed_def)

lemma paths_indexed_insert [simp]: "paths_indexed m \<Longrightarrow> path_index e = k \<Longrightarrow> paths_indexed (hm_insert k e m)"
  by (simp add: paths_indexed_def)

lemma paths_indexed_remove [simp]: "paths_indexed m \<Longrightarrow> paths_indexed (hm_remove k m)"
  by (auto simp: paths_indexed_def split: if_splits)

lemma paths_indexed_entry: "paths_indexed m \<Longrightarrow> (k, e) \<in> set (hm_entries m) \<Longrightarrow> path_index e = k"
  by (simp add: paths_indexed_def hm_entries_iff)

lemma snek_inv_wf: "snek_inv own r \<Longrightarrow> hm_wf (paths r)"
  by (simp add: snek_inv_def paths_indexed_def)

interpretation snek: tree_invariant "snek_inv own" C
  by unfold_locales (auto simp: snek_inv_def)

lemma preserves_paths_insert:
  "path_index e = k \<Longrightarrow> preserves (snek_inv own) (act_modify (\<lambda>r. r\<lparr>paths := hm_insert k e (paths r)\<rparr>))"
  by (rule preserves_modify) (simp add: snek_inv_def)

section \<open>Preservation\<close>

lemma teardown_path_inv [preserve]: "preserves (snek_inv own) (teardown_path from key path_id)"
  unfolding teardown_path_def Let_def
  by (intro preserve preserves_modify) (auto simp: snek_inv_def)

lemma handle_teardown_inv [preserve]: "preserves (snek_inv own) (handle_teardown from rx)"
  unfolding handle_teardown_def by (intro preserve)

lemma bootstrap_ack_update_higher:
  "bootstrap_ack_update now r ack = Some True \<Longrightarrow> snek_inv own r \<Longrightarrow> own < ba_source_key ack"
  by (auto simp: bootstrap_ack_update_def snek_inv_def up_path_def dht_ordered_def
      split: if_splits option.splits Option.bind_splits)

lemma handle_bootstrap_ack_inv [preserve]: "preserves (snek_inv own) (handle_bootstrap_ack E ack)"
  unfolding handle_bootstrap_ack_def Let_def
  by (intro preserve preserves_modify) (auto simp: snek_inv_def up_path_def dest: bootstrap_ack_update_higher)

lemma setup_update_lower: "setup_update now r rx = Some True \<Longrightarrow> su_source_key rx < public_key r"
  by (auto simp: setup_update_def split: if_splits)

lemma handle_setup_at_destination_inv:
  "su_destination_key rx = own \<Longrightarrow> preserves (snek_inv own) (handle_setup_at_destination E from rx)"
  unfolding handle_setup_at_destination_def Let_def
  by (intro preserve preserves_modify)
    (auto simp: snek_inv_def down_path_def dest: setup_update_lower)

lemma handle_setup_in_between_inv [preserve]:
  "preserves (snek_inv own) (handle_setup_in_between E from rx next_hop)"
  unfolding handle_setup_in_between_def Let_def
  by (intro preserve preserves_paths_insert) simp

lemma handle_setup_inv [preserve]: "preserves (snek_inv own) (handle_setup E from rx next_hop)"
  unfolding handle_setup_def
  by (intro preserve handle_setup_at_destination_inv) (auto simp: snek_inv_def)

lemma activate_entry_inv:
  assumes "path_index entry = key"
  shows "preserves (snek_inv own) (activate_entry E from rx key entry)"
  unfolding activate_entry_def Let_def
  by (intro preserve preserves_paths_insert preserves_modify) (auto simp: assms snek_inv_def)

lemma handle_setup_ack_inv [preserve]: "preserves (snek_inv own) (handle_setup_ack E from rx)"
  unfolding handle_setup_ack_def
  by (intro preserve activate_entry_inv) (auto simp: snek_inv_def intro: paths_indexed_entry)

section \<open>Lookup by index\<close>

lemma act_for_indexed:
  assumes "distinct (map fst es)" and "\<And>k e. k \<noteq> i \<Longrightarrow> f (k, e) = act_ret ()"
  shows "act_for es f = (case map_of es i of None \<Rightarrow> act_ret () | Some e \<Rightarrow> f (i, e))"
proof -
  have ret: "act_seq (act_ret ()) m = m" "act_seq n (act_ret ()) = n" for m n :: "('s, unit) act"
    by (auto simp: act_defs fun_eq_iff split: prod.split option.split)
  have skip: "i \<notin> set (map fst xs) \<Longrightarrow> act_for xs f = act_ret ()" for xs
    using assms(2) by (induction xs) (auto simp: ret)
  show ?thesis
    using assms(1)
  proof (induction es)
    case (Cons x es)
    obtain k e where x: "x = (k, e)" by (cases x)
    show ?case
    proof (cases "k = i")
      case True
      with Cons.prems have "i \<notin> set (map fst es)" by (auto simp: x)
      with True show ?thesis by (simp add: x skip ret del: set_map)
    next
      case False
      with Cons assms(2) show ?thesis by (simp add: x ret)
    qed
  qed simp
qed

lemma activate_other:
  "k \<noteq> Snek_Path_Index (sa_destination_key rx) (sa_path_id rx) \<Longrightarrow> activate_entry E from rx k e = act_ret ()"
  by (cases k) (auto simp: activate_entry_def)

lemma handle_setup_ack_run:
  assumes "paths_indexed (paths r)"
  shows "handle_setup_ack E from rx r =
    (let i = Snek_Path_Index (sa_destination_key rx) (sa_path_id rx)
     in case hm_get (paths r) i of None \<Rightarrow> (Some (), r) | Some e \<Rightarrow> activate_entry E from rx i e r)"
proof -
  have "act_for (hm_entries (paths r)) (\<lambda>(k, e). activate_entry E from rx k e) =
      (case map_of (hm_entries (paths r)) (Snek_Path_Index (sa_destination_key rx) (sa_path_id rx)) of
         None \<Rightarrow> act_ret ()
       | Some e \<Rightarrow> (\<lambda>(k, e). activate_entry E from rx k e)
           (Snek_Path_Index (sa_destination_key rx) (sa_path_id rx), e))"
    using assms by (intro act_for_indexed) (simp_all add: activate_other paths_indexed_def hm_wf_def hm_entries_def)
  then show ?thesis
    by (simp add: handle_setup_ack_def act_get_def hm_get_def hm_entries_def act_ret_def Let_def
        split: option.split)
qed

section \<open>The descending path and teardowns from the network\<close>

text \<open>
  A teardown that comes down the descending path does not clear it. When the neighbour
  the path came through tears it down, its entry leaves the table but the descending path
  stays set: the test looks at the destination port, which is zero for this path, and not at
  the source port.
\<close>

theorem remote_teardown_keeps_descending:
  assumes "snek_inv own r" and "descending_path r = Some d"
    and "hm_get (paths r) (path_index d) = Some d" and "path_source d \<noteq> 0"
    and "rx = \<lparr>td_root = rt, td_destination_key = pi_public_key (path_index d),
               td_path_id = pi_path_id (path_index d)\<rparr>"
  shows "handle_teardown (path_source d) rx r =
    (Some [0], r\<lparr>paths := hm_remove (path_index d) (paths r)\<rparr>)"
proof -
  let ?i = "path_index d"
  have down: "path_destination d = 0" and lower: "pi_public_key ?i < own"
    using assms by (auto simp: snek_inv_def down_path_def)
  have up: "\<not> teardown_hits (path_source d) (pi_public_key ?i) (pi_path_id ?i) (ascending_path r)"
    using assms(1) lower
    by (auto simp: teardown_hits_def snek_inv_def up_path_def index_matches_def split: option.split)
  have dn: "\<not> teardown_hits (path_source d) (pi_public_key ?i) (pi_path_id ?i) (descending_path r)"
    using assms(2,4) down by (simp add: teardown_hits_def)
  have "teardown_loop (path_source d) (pi_public_key ?i) (pi_path_id ?i) (hm_entries (paths r)) = Some (?i, [0])"
    using assms(3,4) down by (simp add: teardown_loop_lookup [OF snek_inv_wf [OF assms(1)]])
  then show ?thesis
    using up dn assms(5) by (simp add: handle_teardown_def teardown_path_def act_defs)
qed

section \<open>Setups\<close>

lemma sent_neutral [simp]:
  "get_peer_on_port (r\<lparr>sent := x\<rparr>) p = get_peer_on_port r p"
  "get_teardown (r\<lparr>sent := x\<rparr>) key path_id = get_teardown r key path_id"
  "frames_to E (r\<lparr>sent := x\<rparr>) = frames_to E r"
  "current_root (r\<lparr>sent := x\<rparr>) = current_root r"
proof -
  show root: "current_root (r\<lparr>sent := x\<rparr>) = current_root r"
    by (simp add: current_root_def current_announcement_def tree_announcement_of_def split: option.split)
  show "get_teardown (r\<lparr>sent := x\<rparr>) key path_id = get_teardown r key path_id"
    by (simp add: get_teardown_def root)
qed (simp_all add: get_peer_on_port_def frames_to_def fun_eq_iff)

text \<open>When the destination of a setup should accept it.\<close>

definition setup_accepted :: "system_time \<Rightarrow> router_state \<Rightarrow> snek_setup \<Rightarrow> bool" where
  "setup_accepted now r rx \<longleftrightarrow> su_root rx = current_root r \<and> su_source_key rx < public_key r \<and>
     (\<forall>d. descending_path r = Some d \<and> now < path_last_seen d + SNEK_EXPIRY_PERIOD \<longrightarrow>
        pi_public_key (path_index d) < su_source_key rx \<or>
        pi_public_key (path_index d) = su_source_key rx \<and> pi_path_id (path_index d) \<noteq> su_path_id rx)"

definition no_future_path :: "system_time \<Rightarrow> snek_path option \<Rightarrow> bool" where
  "no_future_path now p \<longleftrightarrow> pred_option (\<lambda>e. path_last_seen e \<le> now) p"

lemma setup_accepted_sent [simp]: "setup_accepted now (r\<lparr>sent := x\<rparr>) rx = setup_accepted now r rx"
  by (simp add: setup_accepted_def)

lemma setup_update_eq:
  "no_future_path now (descending_path r) \<Longrightarrow> setup_update now r rx = Some (setup_accepted now r rx)"
proof (cases "descending_path r")
  case None
  then show ?thesis by (auto simp: setup_update_def setup_accepted_def)
next
  case (Some d)
  moreover assume "no_future_path now (descending_path r)"
  ultimately have "snek_path_valid now d = Some (now < path_last_seen d + SNEK_EXPIRY_PERIOD)"
    by (simp add: no_future_path_def snek_path_valid_Some_iff)
  with Some show ?thesis
    by (auto simp: setup_update_def setup_accepted_def dht_ordered_def)
qed

lemma rejected_run:
  "get_peer_on_port r via = Some peer \<Longrightarrow>
    send_teardown_for_rejected_path E key path_id via r =
      (Some (), r\<lparr>sent := sent r @ frames_to E r peer (SnekTeardown (get_teardown r key path_id))\<rparr>)"
  by (simp add: send_teardown_for_rejected_path_def act_get_def act_unwrap_def Let_def send_logged_run)

text \<open>The entries a setup leaves: at its destination, on its way, and at the node that starts it.\<close>

definition setup_index :: "snek_setup \<Rightarrow> snek_path_index" where
  "setup_index rx = Snek_Path_Index (su_source_key rx) (su_path_id rx)"

definition destination_entry :: "env \<Rightarrow> port \<Rightarrow> snek_setup \<Rightarrow> snek_path" where
  "destination_entry E from rx =
     \<lparr>path_index = setup_index rx, path_origin = su_source_key rx, path_target = su_destination_key rx,
      path_source = from, path_destination = 0, path_last_seen = env_now E,
      path_root = su_root rx, path_active = True\<rparr>"

definition transit_entry :: "env \<Rightarrow> port \<Rightarrow> snek_setup \<Rightarrow> port \<Rightarrow> snek_path" where
  "transit_entry E from rx next_hop =
     \<lparr>path_index = setup_index rx, path_origin = su_source_key rx, path_target = su_destination_key rx,
      path_source = from, path_destination = next_hop, path_last_seen = env_now E,
      path_root = su_root rx, path_active = False\<rparr>"

text \<open>
  C19: a setup at its destination. A setup for an unknown path that reaches the node it names,
  from a port with a peer, is accepted exactly when it was made under this node's root, comes
  from a lower key, and that key is closer than the valid descending neighbour's, or is that
  neighbour with a new path id. Acceptance replaces the descending path, stores the active
  entry, tears down the previous path and answers with an ACK; otherwise the state keeps its
  paths and the sender gets a teardown, two of them if the roots differ.
\<close>

theorem setup_at_destination:
  assumes "su_destination_key rx = public_key r" and "hm_get (paths r) (setup_index rx) = None"
    and "get_peer_on_port r from = Some peer" and "no_future_path (env_now E) (descending_path r)"
  shows "handle_setup E from rx next_hop r =
    (if setup_accepted (env_now E) r rx then
       (Some (), r\<lparr>spawned := spawned r @ (case descending_path r of
             Some d \<Rightarrow> [Send_Teardown 0 (pi_public_key (path_index d)) (pi_path_id (path_index d))]
           | None \<Rightarrow> []),
          paths := hm_insert (setup_index rx) (destination_entry E from rx) (paths r),
          descending_path := Some (destination_entry E from rx),
          sent := sent r @ frames_to E r peer
            (SnekSetupACK \<lparr>sa_root = su_root rx, sa_destination_key = su_source_key rx, sa_path_id = su_path_id rx\<rparr>)\<rparr>)
     else
       (Some (), r\<lparr>sent := sent r @ concat (replicate (if current_root r = su_root rx then 1 else 2)
          (frames_to E r peer (SnekTeardown (get_teardown r (su_source_key rx) (su_path_id rx)))))\<rparr>))"
proof -
  let ?fs = "frames_to E r peer (SnekTeardown (get_teardown r (su_source_key rx) (su_path_id rx)))"
  let ?r1 = "if current_root r = su_root rx then r else r\<lparr>sent := sent r @ ?fs\<rparr>"
  have first: "handle_setup E from rx next_hop r = handle_setup_at_destination E from rx ?r1"
    using assms
    by (simp add: handle_setup_def act_defs hm_contains_key_def setup_index_def rejected_run [unfolded act_defs])
  have update: "setup_update (env_now E) ?r1 rx = Some (setup_accepted (env_now E) r rx)"
    using assms(4) by (simp add: setup_update_eq)
  show ?thesis
  proof (cases "setup_accepted (env_now E) r rx")
    case True
    then have same: "?r1 = r" by (simp add: setup_accepted_def)
    have frames: "frames_to E (r\<lparr>paths := ps, descending_path := dp\<rparr>) = frames_to E r"
      "frames_to E (r\<lparr>spawned := sp, paths := ps, descending_path := dp\<rparr>) = frames_to E r"
      "get_peer_on_port (r\<lparr>paths := ps, descending_path := dp\<rparr>) p = get_peer_on_port r p"
      "get_peer_on_port (r\<lparr>spawned := sp, paths := ps, descending_path := dp\<rparr>) p = get_peer_on_port r p" for ps dp sp p
      by (simp_all add: frames_to_def get_peer_on_port_def fun_eq_iff)
    show ?thesis
      using True update assms(3)
      unfolding first same handle_setup_at_destination_def
      by (simp add: act_defs Let_def send_teardown_for_existing_path_def spawn_def frames
          send_logged_run destination_entry_def setup_index_def split: option.split)
  next
    case False
    then show ?thesis
      using update assms(3)
      unfolding first handle_setup_at_destination_def
      by (simp add: act_get_def act_unwrap_def rejected_run numeral_2_eq_2)
  qed
qed

text \<open>
  C29: a setup on its way. A setup for another node that arrives from a peer and has a next hop
  is forwarded and leaves an inactive entry; if the next hop is this node itself it is
  rejected. A setup made under a different root is answered with a teardown, and still
  forwarded and stored: the check does not return.
\<close>

theorem setup_in_between:
  assumes "su_destination_key rx \<noteq> public_key r" and "hm_get (paths r) (setup_index rx) = None"
    and "get_peer_on_port r from = Some peer" and "get_peer_on_port r next_hop = Some next_peer"
  shows "handle_setup E from rx next_hop r =
    (let teardown = frames_to E r peer (SnekTeardown (get_teardown r (su_source_key rx) (su_path_id rx)));
         rejected = (if current_root r = su_root rx then [] else teardown)
     in if next_peer = public_key r then (Some (), r\<lparr>sent := sent r @ rejected @ teardown\<rparr>)
        else (Some (), r\<lparr>sent := sent r @ rejected @ frames_to E r next_peer (SnekSetup rx),
          paths := hm_insert (setup_index rx) (transit_entry E from rx next_hop) (paths r)\<rparr>))"
proof -
  let ?fs = "frames_to E r peer (SnekTeardown (get_teardown r (su_source_key rx) (su_path_id rx)))"
  let ?r1 = "if current_root r = su_root rx then r else r\<lparr>sent := sent r @ ?fs\<rparr>"
  have "handle_setup E from rx next_hop r = handle_setup_in_between E from rx next_hop ?r1"
    using assms
    by (simp add: handle_setup_def act_defs hm_contains_key_def setup_index_def rejected_run [unfolded act_defs])
  then show ?thesis
    using assms
    by (simp add: handle_setup_in_between_def act_defs Let_def rejected_run [unfolded act_defs] send_logged_run
        transit_entry_def setup_index_def)
qed

section \<open>The handshake of the ascending path\<close>

lemma spawn_run: "spawn t r = (Some (), r\<lparr>spawned := spawned r @ [t]\<rparr>)"
  by (simp add: spawn_def act_modify_def)

lemma act_for_spawn:
  "act_for xs (\<lambda>x. act_when (c x) (spawn (t x))) r = (Some (), r\<lparr>spawned := spawned r @ map t (filter c xs)\<rparr>)"
  by (induction xs arbitrary: r) (simp_all add: act_when_def act_seq_def act_bind_def act_ret_def spawn_run)

definition own_entry :: "env \<Rightarrow> public_key \<Rightarrow> port \<Rightarrow> snek_bootstrap_ack \<Rightarrow> snek_path" where
  "own_entry E own port ack =
     \<lparr>path_index = Snek_Path_Index own (ba_path_id ack), path_origin = ba_source_key ack,
      path_target = ba_source_key ack, path_source = 0, path_destination = port,
      path_last_seen = env_now E, path_root = ba_root ack, path_active = False\<rparr>"

definition own_setup :: "router_state \<Rightarrow> snek_bootstrap_ack \<Rightarrow> snek_setup" where
  "own_setup r ack =
     \<lparr>su_root = current_root r, su_destination = ba_source_coordinates ack,
      su_destination_key = ba_source_key ack, su_source_key = public_key r, su_path_id = ba_path_id ack\<rparr>"

definition replaced_paths :: "router_state \<Rightarrow> public_key \<Rightarrow> task list" where
  "replaced_paths r key =
     map (\<lambda>(k, e). Send_Teardown 0 (pi_public_key k) (pi_path_id k))
       (filter (\<lambda>(k, e). path_source e = 0 \<and> pi_public_key k \<noteq> key) (hm_entries (paths r)))"

lemma handle_bootstrap_ack_run:
  assumes "bootstrap_ack_update (env_now E) r ack = Some True"
    and "next_tree_hop r (ba_source_coordinates ack) (public_key r) = Some (Some p)" and "p \<noteq> public_key r"
    and "port_of r p = Some port"
  shows "handle_bootstrap_ack E ack r =
    (Some (), r\<lparr>sent := sent r @ frames_to E r p (SnekSetup (own_setup r ack)),
       spawned := spawned r @ replaced_paths r (ba_source_key ack),
       paths := hm_insert (path_index (own_entry E (public_key r) port ack)) (own_entry E (public_key r) port ack) (paths r),
       candidate := Some ((own_entry E (public_key r) port ack)\<lparr>path_active := True\<rparr>)\<rparr>)"
proof -
  let ?r1 = "r\<lparr>sent := sent r @ frames_to E r p (SnekSetup (own_setup r ack))\<rparr>"
  have "act_for (hm_entries (paths r)) (\<lambda>(k, e). act_when (path_source e = 0 \<and> pi_public_key k \<noteq> ba_source_key ack)
      (send_teardown_for_existing_path 0 (pi_public_key k) (pi_path_id k))) ?r1 =
    (Some (), ?r1\<lparr>spawned := spawned r @ replaced_paths r (ba_source_key ack)\<rparr>)"
    using act_for_spawn [of "hm_entries (paths r)"
        "\<lambda>(k, e). path_source e = 0 \<and> pi_public_key k \<noteq> ba_source_key ack"
        "\<lambda>(k, e). Send_Teardown 0 (pi_public_key k) (pi_path_id k)" ?r1]
    by (simp add: send_teardown_for_existing_path_def replaced_paths_def case_prod_unfold)
  then show ?thesis
    using assms
    by (simp add: handle_bootstrap_ack_def act_get_def act_unwrap_def act_seq_def act_bind_def act_modify_def
        Let_def send_logged_run own_setup_def own_entry_def)
qed

text \<open>
  C13: the handshake sets the ascending path. When this node acts on a bootstrap ACK and the
  tree leads to its sender, it sends the setup, remembers the candidate, stores an inactive
  entry and schedules the teardown of the paths it started to keys other than the sender's;
  the ascending path is as before. The ACK of that setup, from the port the setup left
  through, then activates the entry, makes it the ascending path and clears the candidate.
\<close>

theorem ascending_handshake:
  assumes "snek_inv own r" and "bootstrap_ack_update (env_now E) r ack = Some True"
    and "next_tree_hop r (ba_source_coordinates ack) own = Some (Some p)" and "p \<noteq> own"
    and "port_of r p = Some port"
    and "rx = \<lparr>sa_root = rt, sa_destination_key = own, sa_path_id = ba_path_id ack\<rparr>"
  shows "let entry = own_entry E own port ack; active = entry\<lparr>path_active := True\<rparr>;
      (res1, r1) = handle_bootstrap_ack E ack r;
      (res2, r2) = handle_setup_ack E' port rx r1
    in res1 = Some () \<and> ascending_path r1 = ascending_path r \<and> candidate r1 = Some active \<and>
       hm_get (paths r1) (path_index entry) = Some entry \<and>
       sent r1 = sent r @ frames_to E r p (SnekSetup (own_setup r ack)) \<and>
       spawned r1 = spawned r @ replaced_paths r (ba_source_key ack) \<and>
       res2 = Some () \<and> ascending_path r2 = Some active \<and> candidate r2 = None \<and>
       hm_get (paths r2) (path_index entry) = Some active \<and> up_path own active \<and> sent r2 = sent r1"
proof -
  let ?e = "own_entry E own port ack"
  have own: "public_key r = own" and idx: "paths_indexed (paths r)"
    using assms(1) by (auto simp: snek_inv_def)
  let ?r1 = "r\<lparr>sent := sent r @ frames_to E r p (SnekSetup (own_setup r ack)),
       spawned := spawned r @ replaced_paths r (ba_source_key ack),
       paths := hm_insert (path_index ?e) ?e (paths r), candidate := Some (?e\<lparr>path_active := True\<rparr>)\<rparr>"
  have run: "handle_bootstrap_ack E ack r = (Some (), ?r1)"
    using handle_bootstrap_ack_run [of E r ack p port] assms own by simp
  have higher: "own < ba_source_key ack"
    using assms by (blast dest: bootstrap_ack_update_higher)
  have e: "path_index ?e = Snek_Path_Index own (ba_path_id ack)" "\<not> path_active ?e" "path_source ?e = 0"
      "path_destination ?e = port"
    by (simp_all add: own_entry_def)
  have "handle_setup_ack E' port rx ?r1 = activate_entry E' port rx (path_index ?e) ?e ?r1"
    using idx by (simp add: handle_setup_ack_run assms(6) e Let_def)
  also have "\<dots> = (Some (), ?r1\<lparr>paths := hm_insert (path_index ?e) (?e\<lparr>path_active := True\<rparr>) (paths ?r1),
      ascending_path := Some (?e\<lparr>path_active := True\<rparr>), candidate := None\<rparr>)"
    by (simp add: activate_entry_def act_defs e assms(6) Let_def)
  finally show ?thesis
    using higher by (simp add: run Let_def) (simp add: up_path_def own_entry_def)
qed

section \<open>Answering a bootstrap\<close>

definition bootstrap_answer :: "router_state \<Rightarrow> snek_bootstrap \<Rightarrow> snek_bootstrap_ack" where
  "bootstrap_answer r frame =
     \<lparr>ba_destination_coordinates = sb_source frame, ba_destination_key = sb_destination_key frame,
      ba_source_coordinates = coordinates_of r, ba_source_key = public_key r, ba_root = current_root r,
      ba_path_id = sb_path_id frame\<rparr>"

text \<open>
  C33: how a bootstrap is answered. Handling one returns and changes nothing but the frames sent.
  If it was made under another root than this node's, or at this node's own coordinates, nothing
  is sent. Otherwise, if a peer is closer in the tree to the coordinates of the bootstrapping
  node, the ACK goes to the best such peer, and it is sent whenever that peer is not this node,
  is connected and its sink takes the frame; if no peer is closer, nothing is sent.
\<close>

theorem bootstrap_answered:
  assumes "announcements_signed r"
  shows "let ack = SnekBootstrapACK (bootstrap_answer r frame);
      reachable_by = (\<lambda>p. p \<noteq> public_key r \<and>
        (\<exists>socket. hm_get (upload_connections r) p = Some socket \<and> env_sink_send E socket ack = None))
    in if current_root r \<noteq> sb_root frame \<or> sb_source frame = coordinates_of r
       then handle_bootstrap E frame r = (Some (), r)
       else (\<exists>p. best_hop r (sb_source frame) (public_key r) p \<and>
           handle_bootstrap E frame r =
             (Some (), if reachable_by p then r\<lparr>sent := sent r @ [(p, ack)]\<rparr> else r)) \<or>
         (\<forall>q b. hop_eligible r (public_key r) q b \<longrightarrow>
           distance_to (coordinates_of r) (sb_source frame) \<le> distance_to (butlast (coords b)) (sb_source frame)) \<and>
         handle_bootstrap E frame r = (Some (), r)"
proof (cases "current_root r = sb_root frame")
  case False
  then show ?thesis
    by (simp add: handle_bootstrap_def act_get_def act_ret_def Let_def)
next
  case root: True
  let ?ack = "SnekBootstrapACK (bootstrap_answer r frame)"
  have run: "next_tree_hop r (sb_source frame) (public_key r) = Some hop \<Longrightarrow>
      handle_bootstrap E frame r = (case hop of None \<Rightarrow> (Some (), r)
        | Some p \<Rightarrow> (Some (), r\<lparr>sent := sent r @ frames_to E r p ?ack\<rparr>))" for hop
    using root
    by (simp add: handle_bootstrap_def act_get_def act_unwrap_def act_ret_def Let_def send_logged_run bootstrap_answer_def
        split: option.split)
  show ?thesis
  proof (cases "sb_source frame = coordinates_of r")
    case True
    then show ?thesis
      using run [OF next_tree_hop_here] by (simp add: frames_to_def)
  next
    case False
    then have away: "\<not> (current_root r \<noteq> sb_root frame \<or> sb_source frame = coordinates_of r)"
      using root by simp
    have frames: "frames_to E r p ?ack = (if p \<noteq> public_key r \<and> (\<exists>socket. hm_get (upload_connections r) p = Some socket \<and>
        env_sink_send E socket ?ack = None) then [(p, ?ack)] else [])" for p
      by (auto simp: frames_to_def split: option.split)
    consider p where "next_tree_hop r (sb_source frame) (public_key r) = Some (Some p)"
        "best_hop r (sb_source frame) (public_key r) p"
      | "next_tree_hop r (sb_source frame) (public_key r) = Some None"
        "\<forall>q b. hop_eligible r (public_key r) q b \<longrightarrow>
           distance_to (coordinates_of r) (sb_source frame) \<le> distance_to (butlast (coords b)) (sb_source frame)"
      using next_tree_hop_cases [OF assms False, of "public_key r"] by blast
    then show ?thesis
    proof cases
      case 1
      have "handle_bootstrap E frame r = (Some (), r\<lparr>sent := sent r @ frames_to E r p ?ack\<rparr>)"
        using run [OF 1(1)] by simp
      then have "handle_bootstrap E frame r = (Some (), if p \<noteq> public_key r \<and> (\<exists>socket. hm_get (upload_connections r) p =
          Some socket \<and> env_sink_send E socket ?ack = None) then r\<lparr>sent := sent r @ [(p, ?ack)]\<rparr> else r)"
        by (simp add: frames)
      with 1(2) show ?thesis
        unfolding Let_def if_not_P [OF away] by blast
    next
      case 2
      have "handle_bootstrap E frame r = (Some (), r)"
        using run [OF 2(1)] by simp
      with 2(2) show ?thesis
        unfolding Let_def if_not_P [OF away] by blast
    qed
  qed
qed

section \<open>Maintenance\<close>

definition expired_teardown :: "system_time \<Rightarrow> snek_path option \<Rightarrow> task list" where
  "expired_teardown now p =
     (case p of
        Some e \<Rightarrow>
          if path_last_seen e + SNEK_EXPIRY_PERIOD \<le> now
          then [Send_Teardown 0 (pi_public_key (path_index e)) (pi_path_id (path_index e))] else []
      | None \<Rightarrow> [])"

definition stale_teardowns :: "system_time \<Rightarrow> router_state \<Rightarrow> task list" where
  "stale_teardowns now r =
     map (\<lambda>(k, e). Send_Teardown 0 (pi_public_key k) (pi_path_id k))
       (filter (\<lambda>(k, e). \<not> path_active e \<and> from_secs 5 < now - path_last_seen e) (hm_entries (paths r)))"

definition needs_bootstrap :: "system_time \<Rightarrow> router_state \<Rightarrow> bool" where
  "needs_bootstrap now r \<longleftrightarrow>
     parent r \<noteq> public_key r \<and> root_public_key (current_root r) \<noteq> public_key r \<and>
     (case ascending_path r of
        Some e \<Rightarrow> path_last_seen e + SNEK_EXPIRY_PERIOD \<le> now \<or> path_root e \<noteq> current_root r
      | None \<Rightarrow> True)"

lemma snek_path_valid_past:
  "path_last_seen e \<le> now \<Longrightarrow> snek_path_valid now e = Some (\<not> path_last_seen e + SNEK_EXPIRY_PERIOD \<le> now)"
  by (auto simp: snek_path_valid_Some_iff)

lemma maintain_ascending_run:
  "no_future_path (env_now E) (ascending_path r) \<Longrightarrow>
    maintain_ascending E r = (Some (needs_bootstrap (env_now E) r),
      r\<lparr>spawned := spawned r @ expired_teardown (env_now E) (ascending_path r)\<rparr>)"
  by (cases "ascending_path r")
    (auto simp: maintain_ascending_def no_future_path_def snek_path_valid_past needs_bootstrap_def
      expired_teardown_def send_teardown_for_existing_path_def spawn_def act_defs Let_def)

lemma maintain_descending_run:
  "no_future_path (env_now E) (descending_path r) \<Longrightarrow>
    maintain_descending E r = (Some (), r\<lparr>spawned := spawned r @ expired_teardown (env_now E) (descending_path r)\<rparr>)"
  by (cases "descending_path r")
    (auto simp: maintain_descending_def no_future_path_def snek_path_valid_past
      expired_teardown_def send_teardown_for_existing_path_def spawn_def act_defs)

lemma maintain_inactive_run:
  assumes "\<forall>(k, e) \<in> set (hm_entries (paths r)). path_last_seen e \<le> env_now E"
  shows "maintain_inactive E r = (Some (), r\<lparr>spawned := spawned r @ stale_teardowns (env_now E) r\<rparr>)"
proof -
  let ?c = "\<lambda>(k, e). \<not> path_active e \<and> from_secs 5 < env_now E - path_last_seen e"
  let ?t = "\<lambda>(k, e). Send_Teardown 0 (pi_public_key k) (pi_path_id k)"
  have cong: "(\<And>x. x \<in> set xs \<Longrightarrow> f x = g x) \<Longrightarrow> act_for xs f = act_for xs g" for xs and f g :: "_ \<Rightarrow> (router_state, unit) act"
    by (induction xs) auto
  have past: "(k, e) \<in> set (hm_entries (paths r)) \<Longrightarrow> duration_since (env_now E) (path_last_seen e) =
      Some (env_now E - path_last_seen e)" for k e
    using assms by (auto simp: duration_since_def)
  have "maintain_inactive E r = act_for (hm_entries (paths r)) (\<lambda>x. act_when (?c x) (spawn (?t x))) r"
    unfolding maintain_inactive_def act_get_def
    by (rule fun_cong, rule cong)
      (auto simp: act_when_def act_unwrap_def past send_teardown_for_existing_path_def)
  then show ?thesis
    by (simp add: act_for_spawn stale_teardowns_def)
qed

text \<open>
  C32: what the maintenance of the snake does. With no stored path stamped in the future it
  schedules the teardown of the ascending and the descending path if they have expired and of
  every entry that has been inactive for more than five seconds, and changes nothing else;
  then it bootstraps exactly when this node is not the root and its ascending path is missing,
  expired or was set up under another root.
\<close>

theorem maintain_snek_effect:
  assumes "no_future_path (env_now E) (ascending_path r)" and "no_future_path (env_now E) (descending_path r)"
    and "\<forall>(k, e) \<in> set (hm_entries (paths r)). path_last_seen e \<le> env_now E"
  shows "maintain_snek E r =
    (let r' = r\<lparr>spawned := spawned r @ expired_teardown (env_now E) (ascending_path r) @
           expired_teardown (env_now E) (descending_path r) @ stale_teardowns (env_now E) r\<rparr>
     in if needs_bootstrap (env_now E) r then bootstrap_now E r' else (Some (), r'))"
proof -
  let ?r1 = "r\<lparr>spawned := spawned r @ expired_teardown (env_now E) (ascending_path r)\<rparr>"
  let ?r2 = "?r1\<lparr>spawned := spawned ?r1 @ expired_teardown (env_now E) (descending_path r)\<rparr>"
  have "maintain_descending E ?r1 = (Some (), ?r2)"
    using maintain_descending_run [of E ?r1] assms(2) by simp
  moreover have "maintain_inactive E ?r2 = (Some (), ?r2\<lparr>spawned := spawned ?r2 @ stale_teardowns (env_now E) r\<rparr>)"
    using maintain_inactive_run [of ?r2 E] assms(3) by (simp add: stale_teardowns_def)
  ultimately show ?thesis
    using maintain_ascending_run [OF assms(1)]
    by (simp add: maintain_snek_def act_bind_def act_seq_def act_when_def act_ret_def Let_def)
qed

section \<open>Examples\<close>

definition example_setup :: "u8 \<Rightarrow> u8 \<Rightarrow> snek_setup" where
  "example_setup source dest =
     \<lparr>su_root = Root (repeat_byte 9) 1, su_destination = [4], su_destination_key = repeat_byte dest,
      su_source_key = repeat_byte source, su_path_id = 21\<rparr>"

definition example_ack :: snek_bootstrap_ack where
  "example_ack =
     \<lparr>ba_destination_coordinates = [4], ba_destination_key = repeat_byte 5, ba_source_coordinates = [],
      ba_source_key = repeat_byte 9, ba_root = Root (repeat_byte 9) 1, ba_path_id = 33\<rparr>"

lemma example_snek_inv: "snek_inv (repeat_byte 5) example_snek"
  by (simp add: snek_inv_def paths_indexed_def hm_wf_def down_path_def)

theorem remote_teardown_keeps_descending_witness:
  "descending_path (snd (handle_teardown 2 \<lparr>td_root = Root (repeat_byte 9) 1,
      td_destination_key = repeat_byte 3, td_path_id = 8\<rparr> example_snek)) = Some example_down"
  using remote_teardown_keeps_descending [OF example_snek_inv, of example_down _ "Root (repeat_byte 9) 1"]
  by simp

theorem setup_at_destination_witness:
  "descending_path (snd (handle_setup example_env 2 (example_setup 4 5) 0 example_snek)) =
     Some (destination_entry example_env 2 (example_setup 4 5)) \<and>
   descending_path (snd (handle_setup example_env 2 (example_setup 2 5) 0 example_snek)) = Some example_down"
  using setup_at_destination [of "example_setup 4 5" example_snek 2 "repeat_byte 6" example_env 0]
    setup_at_destination [of "example_setup 2 5" example_snek 2 "repeat_byte 6" example_env 0]
  by (simp add: example_setup_def setup_index_def setup_accepted_def no_future_path_def
      SNEK_EXPIRY_PERIOD_def from_secs_def)

theorem setup_in_between_witness:
  "sent (snd (handle_setup example_env 2 ((example_setup 4 9)\<lparr>su_root := Root (repeat_byte 8) 1\<rparr>) 1 example_router)) =
     [(repeat_byte 6, SnekTeardown \<lparr>td_root = Root (repeat_byte 9) 1, td_destination_key = repeat_byte 4, td_path_id = 21\<rparr>),
      (repeat_byte 9, SnekSetup ((example_setup 4 9)\<lparr>su_root := Root (repeat_byte 8) 1\<rparr>))]"
  using setup_in_between [of "(example_setup 4 9)\<lparr>su_root := Root (repeat_byte 8) 1\<rparr>" example_router 2
      "repeat_byte 6" 1 "repeat_byte 9" example_env]
  by (simp add: example_setup_def setup_index_def frames_to_def get_teardown_def)

theorem ascending_handshake_witness:
  "let r1 = snd (handle_bootstrap_ack example_env example_ack example_snek);
       r2 = snd (handle_setup_ack example_env 1 \<lparr>sa_root = Root (repeat_byte 9) 1,
              sa_destination_key = repeat_byte 5, sa_path_id = 33\<rparr> r1)
   in ascending_path r1 = None \<and> ascending_path r2 \<noteq> None \<and> candidate r2 = None"
proof -
  have hop: "next_tree_hop example_snek [] (repeat_byte 5) = Some (Some (repeat_byte 9))"
    by (simp add: next_tree_hop_def distance_to_def get_common_prefix_def Let_def peer_coords_eq
        is_better_next_tree_hop_candidate_def)
  have "bootstrap_ack_update 100 example_snek example_ack = Some True"
    by (simp add: bootstrap_ack_update_def example_ack_def)
  then show ?thesis
    using ascending_handshake [OF example_snek_inv, of example_env example_ack "repeat_byte 9" 1
        "\<lparr>sa_root = Root (repeat_byte 9) 1, sa_destination_key = repeat_byte 5, sa_path_id = 33\<rparr>"
        "Root (repeat_byte 9) 1" example_env] hop
    by (simp add: example_ack_def Let_def case_prod_unfold)
qed

theorem bootstrap_answered_witness:
  "sent (snd (handle_bootstrap example_env \<lparr>sb_root = Root (repeat_byte 9) 1, sb_destination_key = repeat_byte 4,
      sb_source = [7], sb_path_id = 5\<rparr> example_snek)) =
     [(repeat_byte 9, SnekBootstrapACK \<lparr>ba_destination_coordinates = [7], ba_destination_key = repeat_byte 4,
        ba_source_coordinates = [4], ba_source_key = repeat_byte 5, ba_root = Root (repeat_byte 9) 1, ba_path_id = 5\<rparr>)]"
proof -
  let ?frame = "\<lparr>sb_root = Root (repeat_byte 9) 1, sb_destination_key = repeat_byte 4, sb_source = [7], sb_path_id = 5\<rparr>"
  have "hop_eligible example_snek (repeat_byte 5) (repeat_byte 9) (heard 9 4 1)"
    "\<not> distance_to [4] [7] \<le> distance_to (butlast (coords (heard 9 4 1))) [7]"
    by (simp_all add: hop_eligible_def distance_to_def get_common_prefix_def)
  then have closer: "\<not> (\<forall>q b. hop_eligible example_snek (repeat_byte 5) q b \<longrightarrow>
      distance_to [4] [7] \<le> distance_to (butlast (coords b)) [7])"
    by blast
  have best: "p = repeat_byte 9" if "best_hop example_snek [7] (repeat_byte 5) p" for p
    using that by (auto simp: best_hop_def hop_eligible_def)
  have "handle_bootstrap example_env ?frame example_snek = (Some (),
      example_snek\<lparr>sent := [(repeat_byte 9, SnekBootstrapACK (bootstrap_answer example_snek ?frame))]\<rparr>)"
    using bootstrap_answered [of example_snek ?frame example_env] closer by (auto simp: Let_def dest!: best)
  then show ?thesis
    by (simp add: bootstrap_answer_def)
qed

theorem maintain_snek_effect_witness:
  "maintain_snek example_env (example_snek\<lparr>parent := repeat_byte 5\<rparr>) = (Some (), example_snek\<lparr>parent := repeat_byte 5\<rparr>)"
  using maintain_snek_effect [of example_env "example_snek\<lparr>parent := repeat_byte 5\<rparr>"]
  by (simp add: no_future_path_def hm_entries_def expired_teardown_def stale_teardowns_def needs_bootstrap_def
      SNEK_EXPIRY_PERIOD_def from_secs_def)

end
