(* ===== verification/Router.thy ===== *)
theory Router
  imports Snek_Invariant "HOL-Library.Multiset"
begin

text \<open>
  The rest of \<open>src/router.rs\<close>: the dispatch of frames, accepting, adding and disconnecting
  peers, starting and stopping, and the spawned tasks. The router as a whole is a step relation
  whose steps are calls of its public functions, rounds of its loops and runs of its tasks, in
  any order; the invariants below hold in every state it can reach.
\<close>

section \<open>Dispatch\<close>

text \<open>\<open>Inl\<close> is the error the handler returns; a panic is the \<open>None\<close> of the action.\<close>

type_synonym handler = "(router_error + unit) router_act"

definition done_ok :: "unit router_act \<Rightarrow> handler" where
  "done_ok m = act_seq m (act_ret (Inr ()))"

definition forward_tree :: "env \<Rightarrow> frame \<Rightarrow> coordinates \<Rightarrow> public_key \<Rightarrow> unit router_act \<Rightarrow> handler" where
  "forward_tree E frame dest from here = act_get (\<lambda>r.
     act_unwrap (next_tree_hop r dest from) (\<lambda>hop.
       case hop of
         None \<Rightarrow> act_ret (Inr ())
       | Some peer \<Rightarrow> if peer = public_key r then done_ok here else send E frame peer))"

fun handle_frame :: "env \<Rightarrow> frame \<Rightarrow> public_key \<Rightarrow> handler" where
  "handle_frame E (TreeRouted packet) from =
     forward_tree E (TreeRouted packet) (tp_destination_coordinates packet) from
       (send_to_local E (TreeRouted packet))"
| "handle_frame E (SnekRouted packet) from = act_get (\<lambda>r.
     act_unwrap (next_snek_hop (env_now E) r (sp_destination_key packet) False True) (\<lambda>hop.
       case hop of
         Some peer \<Rightarrow>
           if peer = public_key r then done_ok (send_to_local E (SnekRouted packet))
           else send E (SnekRouted packet) peer
       | None \<Rightarrow> act_ret (Inr ())))"
| "handle_frame E (TreeAnnouncement announcement) from =
     done_ok (handle_tree_announcement E announcement from)"
| "handle_frame E (SnekBootstrap bootstrap) from = act_get (\<lambda>r.
     act_unwrap (next_snek_hop (env_now E) r (sb_destination_key bootstrap) True False) (\<lambda>hop.
       act_unwrap hop (\<lambda>next_hop.
         if next_hop = public_key r then done_ok (handle_bootstrap E bootstrap)
         else send E (SnekBootstrap bootstrap) next_hop)))"
| "handle_frame E (SnekBootstrapACK ack) from =
     forward_tree E (SnekBootstrapACK ack) (ba_destination_coordinates ack) from (handle_bootstrap_ack E ack)"
| "handle_frame E (SnekSetup setup) from = act_get (\<lambda>r.
     act_unwrap (port_of r from) (\<lambda>from_port.
       act_unwrap (next_tree_hop r (su_destination setup) from) (\<lambda>hop.
         act_unwrap hop (\<lambda>next_hop.
           act_unwrap (port_of r next_hop) (\<lambda>next_hop_port.
             done_ok (handle_setup E from_port setup next_hop_port))))))"
| "handle_frame E (SnekSetupACK ack) from = act_get (\<lambda>r.
     act_unwrap (port_of r from) (\<lambda>p. done_ok (handle_setup_ack E p ack)))"
| "handle_frame E (SnekTeardown teardown) from = act_get (\<lambda>r.
     act_unwrap (port_of r from) (\<lambda>p.
       done_ok (act_bind (handle_teardown p teardown) (\<lambda>hops. act_ret ()))))"

section \<open>Disconnecting\<close>

text \<open>The part for a peer that has a port; the result is whether to bootstrap.\<close>

definition disconnect_port :: "port \<Rightarrow> bool router_act" where
  "disconnect_port p =
     act_seq
       (act_get (\<lambda>r. act_for (hm_entries (paths r)) (\<lambda>(key, value).
          act_when (path_destination value = p \<or> path_source value = p)
            (send_teardown_for_existing_path p (pi_public_key key) (pi_path_id key)))))
       (act_bind
         (act_get (\<lambda>r. case ascending_path r of
            Some asc \<Rightarrow>
              if path_destination asc = p
              then act_bind (teardown_path 0 (pi_public_key (path_index asc)) (pi_path_id (path_index asc)))
                     (\<lambda>hops. act_ret True)
              else act_ret False
          | None \<Rightarrow> act_ret False))
         (\<lambda>bootstrap. act_seq
           (act_get (\<lambda>r. case descending_path r of
              Some desc \<Rightarrow>
                if path_destination desc = p
                then act_bind (teardown_path 0 (pi_public_key (path_index desc)) (pi_path_id (path_index desc)))
                       (\<lambda>hops. act_ret ())
                else act_ret ()
            | None \<Rightarrow> act_ret ()))
           (act_seq (act_modify (\<lambda>r. r\<lparr>ports := hm_remove p (ports r)\<rparr>)) (act_ret bootstrap))))"

definition disconnect_peer :: "env \<Rightarrow> public_key \<Rightarrow> unit router_act" where
  "disconnect_peer E peer = act_get (\<lambda>r.
     act_bind (case port_of r peer of Some p \<Rightarrow> disconnect_port p | None \<Rightarrow> act_ret False) (\<lambda>bootstrap.
       act_seq
         (act_modify (\<lambda>r. r\<lparr>announcements := hm_remove peer (announcements r),
            upload_connections := hm_remove peer (upload_connections r),
            download_connections := hm_remove peer (download_connections r)\<rparr>))
         (act_get (\<lambda>r.
           act_bind (if parent r = peer \<and> \<not> bootstrap then parent_selection E else act_ret bootstrap)
             (\<lambda>bootstrap. act_when bootstrap (bootstrap_now E))))))"

section \<open>Peers\<close>

text \<open>\<open>item\<close> is what the peer's stream yields; it is not read when there is no stream.\<close>

definition poll_peer :: "env \<Rightarrow> public_key \<Rightarrow> (router_error + frame) option \<Rightarrow> handler" where
  "poll_peer E peer item = act_get (\<lambda>r.
     case hm_get (download_connections r) peer of
       None \<Rightarrow> act_ret (Inl ConnectionClosed)
     | Some socket \<Rightarrow>
         (case item of
            None \<Rightarrow> act_ret (Inl ConnectionClosed)
          | Some (Inr frame) \<Rightarrow> handle_frame E frame peer
          | Some (Inl e) \<Rightarrow> act_ret (Inr ())))"

text \<open>One round of the loop of \<open>spawn_peer\<close>; to go on is to schedule the next round.\<close>

definition peer_loop :: "env \<Rightarrow> (router_error + frame) option \<Rightarrow> public_key \<Rightarrow> unit router_act" where
  "peer_loop E item peer = act_get (\<lambda>r.
     if \<not> running r then disconnect_peer E peer
     else act_bind (poll_peer E peer item) (\<lambda>res.
       case res of Inr _ \<Rightarrow> spawn (Peer_Loop peer) | Inl e \<Rightarrow> disconnect_peer E peer))"

definition spawn_peer :: "public_key \<Rightarrow> unit router_act" where
  "spawn_peer peer = spawn (Peer_Loop peer)"

definition add_peer :: "env \<Rightarrow> public_key \<Rightarrow> port \<Rightarrow> connection \<Rightarrow> connection \<Rightarrow> bool \<Rightarrow> unit router_act" where
  "add_peer E peer p upload download send_first_announcement = act_get (\<lambda>r.
     if hm_contains_key (download_connections r) peer then act_ret ()
     else if hm_contains_key (upload_connections r) peer then act_ret ()
     else act_seq
       (act_modify (\<lambda>r. r\<lparr>upload_connections := hm_insert peer upload (upload_connections r),
          download_connections := hm_insert peer download (download_connections r)\<rparr>))
       (act_seq (act_modify (\<lambda>r. r\<lparr>ports := hm_insert p (Some peer) (ports r)\<rparr>))
         (act_seq
           (act_when send_first_announcement
             (act_get (\<lambda>r. send_tree_announcement E peer (current_announcement (env_now E) r))))
           (spawn_peer peer))))"

text \<open>
  \<open>connect\<close> announces itself on the new connection and waits for the peer's announcement. The
  first frame goes to a sink that belongs to no peer yet, so \<open>sent\<close> does not record it.
\<close>

definition accept_peer ::
  "env \<Rightarrow> port \<Rightarrow> connection \<Rightarrow> connection \<Rightarrow> tree_announcement \<Rightarrow> (router_error + public_key) router_act" where
  "accept_peer E p upload download ann =
     (if ann_signatures ann = [] then act_ret (Inl MissingSignature)
      else let key = signing_public_key (last (ann_signatures ann))
        in act_seq (act_modify (\<lambda>r. r\<lparr>ports := hm_insert p (Some key) (ports r)\<rparr>))
          (act_seq (add_peer E key p upload download False)
            (act_bind (handle_frame E (TreeAnnouncement ann) key) (\<lambda>res.
              act_ret (case res of Inl e \<Rightarrow> Inl e | Inr _ \<Rightarrow> Inr key)))))"

definition greet_peer ::
  "env \<Rightarrow> port \<Rightarrow> connection \<Rightarrow> connection \<Rightarrow> (router_error + frame) option \<Rightarrow>
   (router_error + public_key) router_act" where
  "greet_peer E p upload download first = act_get (\<lambda>r.
     let announcement = append_signature (env_crypto E) (current_announcement (env_now E) r) (private_key r) p
     in case env_sink_send E upload (TreeAnnouncement announcement) of
          Some e \<Rightarrow> act_ret (Inl e)
        | None \<Rightarrow>
            (case first of
               Some (Inr (TreeAnnouncement ann)) \<Rightarrow> accept_peer E p upload download ann
             | Some (Inr _) \<Rightarrow> act_ret (Inl InvalidFrame)
             | Some (Inl e) \<Rightarrow> act_ret (Inl e)
             | None \<Rightarrow> act_ret (Inl ConnectionClosed)))"

definition connect ::
  "env \<Rightarrow> connection \<Rightarrow> connection \<Rightarrow> (router_error + frame) option \<Rightarrow> (router_error + public_key) router_act" where
  "connect E upload download first = act_bind get_new_port (\<lambda>p. greet_peer E p upload download first)"

section \<open>Starting, stopping, loops and tasks\<close>

definition start :: "unit router_act" where
  "start = act_modify (\<lambda>r. r\<lparr>running := True\<rparr>)"

definition stop :: "env \<Rightarrow> unit router_act" where
  "stop E = act_seq (act_modify (\<lambda>r. r\<lparr>running := False\<rparr>))
     (act_get (\<lambda>r. act_for (peers r) (disconnect_peer E)))"

text \<open>A round of the three loops \<open>start\<close> spawns; each ends when the router has stopped.\<close>

definition tree_tick :: "env \<Rightarrow> unit router_act" where
  "tree_tick E = act_get (\<lambda>r. act_when (running r) (maintain_tree E))"

definition snek_tick :: "env \<Rightarrow> unit router_act" where
  "snek_tick E = act_get (\<lambda>r. act_when (running r) (maintain_snek E))"

definition local_frame :: "env \<Rightarrow> frame \<Rightarrow> handler" where
  "local_frame E frame = act_get (\<lambda>r.
     if running r then handle_frame E frame (public_key r) else act_ret (Inr ()))"

text \<open>The task of \<open>reparent\<close> after the wait, if any.\<close>

definition reparent_now :: "env \<Rightarrow> unit router_act" where
  "reparent_now E = act_bind (parent_selection E) (\<lambda>selected. act_when selected (bootstrap_now E))"

fun run_task :: "env \<Rightarrow> (router_error + frame) option \<Rightarrow> task \<Rightarrow> unit router_act" where
  "run_task E item (Send_Teardown p key path_id) = run_teardown E p key path_id"
| "run_task E item (Reparent wait) =
     (if wait then act_seq (set_reparent_timer (env_now E)) (spawn Reparent_Waited) else reparent_now E)"
| "run_task E item Reparent_Waited = reparent_now E"
| "run_task E item (Peer_Loop peer) = peer_loop E item peer"

definition take_task :: "env \<Rightarrow> (router_error + frame) option \<Rightarrow> task \<Rightarrow> unit router_act" where
  "take_task E item t = act_seq (act_modify (\<lambda>r. r\<lparr>spawned := remove1 t (spawned r)\<rparr>)) (run_task E item t)"

section \<open>The router as a step relation\<close>

inductive router_step :: "crypto \<Rightarrow> router_state \<Rightarrow> router_state \<Rightarrow> bool" for C where
  step_start: "router_step C r (snd (start r))"
| step_stop: "env_crypto E = C \<Longrightarrow> router_step C r (snd (stop E r))"
| step_connect: "env_crypto E = C \<Longrightarrow> router_step C r (snd (connect E upload download first r))"
| step_disconnect: "env_crypto E = C \<Longrightarrow> router_step C r (snd (disconnect_peer E peer r))"
| step_local: "env_crypto E = C \<Longrightarrow> router_step C r (snd (local_frame E frame r))"
| step_tree: "env_crypto E = C \<Longrightarrow> router_step C r (snd (tree_tick E r))"
| step_snek: "env_crypto E = C \<Longrightarrow> router_step C r (snd (snek_tick E r))"
| step_task: "env_crypto E = C \<Longrightarrow> t \<in> set (spawned r) \<Longrightarrow> router_step C r (snd (take_task E item t r))"

inductive reachable :: "crypto \<Rightarrow> signing_key \<Rightarrow> router_state \<Rightarrow> bool" for C key where
  reach_new: "reachable C key (new_router C key)"
| reach_step: "reachable C key r \<Longrightarrow> router_step C r r' \<Longrightarrow> reachable C key r'"

inductive_cases router_stepE: "router_step C r r'"

section \<open>Invariants of the router\<close>

text \<open>
  A frame is heard from a peer, on its connection or as the first frame of a new one, or from the
  local client. \<open>heard_step W\<close> are the steps in which every frame that is heard satisfies \<open>W\<close>;
  without a condition these are all steps. A new connection counts as that of the node whose
  signature is the last one of its announcement.
\<close>

type_synonym hearing = "public_key \<Rightarrow> frame \<Rightarrow> bool"

definition heard_item :: "hearing \<Rightarrow> public_key \<Rightarrow> (router_error + frame) option \<Rightarrow> bool" where
  "heard_item W from item \<longleftrightarrow> (\<forall>f. item = Some (Inr f) \<longrightarrow> W from f)"

definition heard_first :: "hearing \<Rightarrow> (router_error + frame) option \<Rightarrow> bool" where
  "heard_first W item \<longleftrightarrow> (\<forall>a. item = Some (Inr (TreeAnnouncement a)) \<longrightarrow> ann_signatures a \<noteq> [] \<longrightarrow>
     W (signing_public_key (last (ann_signatures a))) (TreeAnnouncement a))"

definition heard_task :: "hearing \<Rightarrow> (router_error + frame) option \<Rightarrow> task \<Rightarrow> bool" where
  "heard_task W item t \<longleftrightarrow> (\<forall>peer. t = Peer_Loop peer \<longrightarrow> heard_item W peer item)"

lemmas heard_defs = heard_item_def heard_first_def heard_task_def

inductive heard_step :: "crypto \<Rightarrow> hearing \<Rightarrow> router_state \<Rightarrow> router_state \<Rightarrow> bool" for C W where
  heard_start: "heard_step C W r (snd (start r))"
| heard_stop: "env_crypto E = C \<Longrightarrow> heard_step C W r (snd (stop E r))"
| heard_connect: "env_crypto E = C \<Longrightarrow> heard_first W first \<Longrightarrow>
    heard_step C W r (snd (connect E upload download first r))"
| heard_disconnect: "env_crypto E = C \<Longrightarrow> heard_step C W r (snd (disconnect_peer E peer r))"
| heard_local: "env_crypto E = C \<Longrightarrow> W (public_key r) frame \<Longrightarrow>
    heard_step C W r (snd (local_frame E frame r))"
| heard_tree: "env_crypto E = C \<Longrightarrow> heard_step C W r (snd (tree_tick E r))"
| heard_snek: "env_crypto E = C \<Longrightarrow> heard_step C W r (snd (snek_tick E r))"
| heard_run: "env_crypto E = C \<Longrightarrow> heard_task W item t \<Longrightarrow> t \<in> set (spawned r) \<Longrightarrow>
    heard_step C W r (snd (take_task E item t r))"

lemma heard_step_router: "heard_step C W r r' \<Longrightarrow> router_step C r r'"
  by (induction rule: heard_step.induct) (auto intro: router_step.intros)

lemma router_step_heard: "router_step C r r' \<Longrightarrow> heard_step C (\<lambda>k f. True) r r'"
  by (induction rule: router_step.induct) (auto simp: heard_defs intro: heard_step.intros)

lemma heard_step_mono: "heard_step C W r r' \<Longrightarrow> (\<And>k f. W k f \<Longrightarrow> W' k f) \<Longrightarrow> heard_step C W' r r'"
  by (induction rule: heard_step.induct) (auto simp: heard_defs intro!: heard_step.intros)

text \<open>
  The contract of an invariant of the whole router: it survives the announcements of the tree
  that satisfy \<open>W\<close>, sending on the other frames that do, the operations of the snake that
  originate frames or write the paths, and what happens to ports and connections. Then it
  survives every step that hears only such frames.
\<close>

locale frame_contract = frame_sends +
  fixes C :: crypto and W :: hearing
  assumes heard_ok: "W k f \<Longrightarrow> \<not> is_announcement f \<Longrightarrow> ok f"
    and inv_handle_tree_announcement: "env_crypto E = C \<Longrightarrow> W k (TreeAnnouncement a) \<Longrightarrow> preserves I (handle_tree_announcement E a k)"
    and inv_parent_selection: "env_crypto E = C \<Longrightarrow> preserves I (parent_selection E)"
    and inv_maintain_tree: "env_crypto E = C \<Longrightarrow> preserves I (maintain_tree E)"
    and inv_set_reparent_timer: "preserves I (set_reparent_timer now)"
    and inv_first_announcement: "env_crypto E = C \<Longrightarrow>
      preserves I (act_get (\<lambda>r. send_tree_announcement E k (current_announcement (env_now E) r)))"
    and inv_teardown_path: "preserves I (teardown_path from key path_id)"
    and inv_bootstrap_now: "preserves I (bootstrap_now E)"
    and inv_handle_bootstrap: "W k (SnekBootstrap bootstrap) \<Longrightarrow> preserves I (handle_bootstrap E bootstrap)"
    and inv_handle_bootstrap_ack: "W k (SnekBootstrapACK ack) \<Longrightarrow> preserves I (handle_bootstrap_ack E ack)"
    and inv_handle_setup: "W k (SnekSetup setup) \<Longrightarrow> preserves I (handle_setup E from setup next_hop)"
    and inv_handle_setup_ack: "W k (SnekSetupACK setup_ack) \<Longrightarrow> preserves I (handle_setup_ack E from setup_ack)"
    and inv_running: "I r \<Longrightarrow> I (r\<lparr>running := b\<rparr>)"
    and inv_new_port: "I r \<Longrightarrow> new_port_from (ports r) 1 = Some p \<Longrightarrow> I (r\<lparr>ports := hm_insert p None (ports r)\<rparr>)"
    and inv_assign_port: "I r \<Longrightarrow> p \<noteq> 0 \<Longrightarrow> I (r\<lparr>ports := hm_insert p (Some peer) (ports r)\<rparr>)"
    and inv_remove_port: "I r \<Longrightarrow> I (r\<lparr>ports := hm_remove p (ports r)\<rparr>)"
    and inv_add_connection: "I r \<Longrightarrow> I (r\<lparr>upload_connections := hm_insert peer u (upload_connections r),
      download_connections := hm_insert peer d (download_connections r)\<rparr>)"
    and inv_remove_peer: "I r \<Longrightarrow> I (r\<lparr>announcements := hm_remove peer (announcements r),
      upload_connections := hm_remove peer (upload_connections r),
      download_connections := hm_remove peer (download_connections r)\<rparr>)"
begin

lemmas preserves_operations [preserve] =
  inv_parent_selection inv_maintain_tree inv_set_reparent_timer inv_first_announcement inv_teardown_path
  inv_bootstrap_now preserves_maintain_with

lemmas preserves_heard = inv_handle_tree_announcement inv_handle_bootstrap inv_handle_bootstrap_ack inv_handle_setup inv_handle_setup_ack

lemma preserves_done_ok [preserve]: "preserves I m \<Longrightarrow> preserves I (done_ok m)"
  unfolding done_ok_def by (intro preserve)

lemma preserves_forward_tree:
  "preserves I here \<Longrightarrow> ok frame \<Longrightarrow> preserves I (forward_tree E frame dest from here)"
  unfolding forward_tree_def by (intro preserve preserves_ok_send)

lemma preserves_handle_frame [preserve]:
  assumes "env_crypto E = C" and "W from frame"
  shows "preserves I (handle_frame E frame from)"
  using assms heard_ok [OF assms(2)]
  by (cases frame)
    (auto simp: handle_teardown_def intro!: preserve preserves_forward_tree preserves_ok_send intro: preserves_heard)

lemma preserves_disconnect_port [preserve]: "preserves I (disconnect_port p)"
  unfolding disconnect_port_def
  by (intro preserve preserves_modify inv_remove_port)

lemma preserves_disconnect_peer [preserve]: "env_crypto E = C \<Longrightarrow> preserves I (disconnect_peer E peer)"
  unfolding disconnect_peer_def
  by (intro preserve preserves_modify inv_remove_peer)

lemma preserves_poll_peer [preserve]: "env_crypto E = C \<Longrightarrow> heard_item W peer item \<Longrightarrow> preserves I (poll_peer E peer item)"
  unfolding poll_peer_def
  by (intro preserve) (auto simp: heard_item_def intro!: preserve split: option.split sum.split)

lemma preserves_peer_loop [preserve]: "env_crypto E = C \<Longrightarrow> heard_item W peer item \<Longrightarrow> preserves I (peer_loop E item peer)"
  unfolding peer_loop_def
  by (intro preserve) (auto intro!: preserve split: sum.split)

lemma preserves_add_peer: "env_crypto E = C \<Longrightarrow> p \<noteq> 0 \<Longrightarrow> preserves I (add_peer E peer p u d first)"
  unfolding add_peer_def spawn_peer_def
  by (intro preserve preserves_modify inv_add_connection inv_assign_port)

lemma preserves_accept_peer:
  "env_crypto E = C \<Longrightarrow> p \<noteq> 0 \<Longrightarrow> heard_first W (Some (Inr (TreeAnnouncement ann))) \<Longrightarrow>
    preserves I (accept_peer E p u d ann)"
  unfolding accept_peer_def Let_def
  by (intro preserve preserves_add_peer preserves_modify inv_assign_port) (simp_all add: heard_defs)

lemma preserves_greet_peer: "env_crypto E = C \<Longrightarrow> p \<noteq> 0 \<Longrightarrow> heard_first W first \<Longrightarrow> preserves I (greet_peer E p u d first)"
  unfolding greet_peer_def Let_def
  by (intro preserve) (auto intro!: preserve preserves_accept_peer split: option.split sum.split frame.split)

lemma preserves_connect [preserve]:
  assumes "env_crypto E = C" and "heard_first W first"
  shows "preserves I (connect E u d first)"
proof (rule preservesI)
  fix r assume I: "I r"
  show "I (snd (connect E u d first r))"
  proof (cases "new_port_from (ports r) 1")
    case None
    with I show ?thesis
      by (simp add: connect_def get_new_port_def act_defs)
  next
    case (Some p)
    then have "p \<noteq> 0"
      by (auto dest: new_port_from_Some)
    then have "I (snd (greet_peer E p u d first (r\<lparr>ports := hm_insert p None (ports r)\<rparr>)))"
      by (intro preservesD [OF preserves_greet_peer [OF assms(1) _ assms(2)]] inv_new_port I Some)
    with Some show ?thesis
      by (simp add: connect_def get_new_port_def act_defs)
  qed
qed

lemma preserves_run_task: "env_crypto E = C \<Longrightarrow> heard_task W item t \<Longrightarrow> preserves I (run_task E item t)"
  by (cases t) (auto simp: reparent_now_def heard_task_def intro!: preserve preserves_run_teardown)

lemma preserves_take_task: "env_crypto E = C \<Longrightarrow> heard_task W item t \<Longrightarrow> preserves I (take_task E item t)"
  unfolding take_task_def by (intro preserve preserves_run_task preserves_modify inv_spawned)

lemma preserves_start: "preserves I start"
  unfolding start_def by (intro preserves_modify inv_running)

lemma preserves_stop: "env_crypto E = C \<Longrightarrow> preserves I (stop E)"
  unfolding stop_def by (intro preserve preserves_modify inv_running)

lemma preserves_ticks: "env_crypto E = C \<Longrightarrow> preserves I (tree_tick E)" "preserves I (snek_tick E)"
  unfolding tree_tick_def snek_tick_def by (intro preserve; assumption)+

lemma local_frame_keeps:
  "env_crypto E = C \<Longrightarrow> W (public_key r) frame \<Longrightarrow> I r \<Longrightarrow> I (snd (local_frame E frame r))"
  by (auto simp: local_frame_def act_get_def act_ret_def intro: preservesD preserves_handle_frame)

lemma step_keeps:
  assumes "heard_step C W r r'" and "I r"
  shows "I r'"
  using assms
  by cases (auto intro: preservesD preserves_start preserves_stop preserves_connect preserves_disconnect_peer
      local_frame_keeps preserves_ticks preserves_take_task)

end

text \<open>If no plain frame can break the invariant, its contract is shorter.\<close>

locale router_contract = plain_sends +
  fixes C :: crypto and W :: hearing
  assumes router_announcement: "env_crypto E = C \<Longrightarrow> W k (TreeAnnouncement a) \<Longrightarrow> preserves I (handle_tree_announcement E a k)"
    and router_parent_selection: "env_crypto E = C \<Longrightarrow> preserves I (parent_selection E)"
    and router_maintain_tree: "env_crypto E = C \<Longrightarrow> preserves I (maintain_tree E)"
    and router_set_reparent_timer: "preserves I (set_reparent_timer now)"
    and router_first_announcement: "env_crypto E = C \<Longrightarrow>
      preserves I (act_get (\<lambda>r. send_tree_announcement E k (current_announcement (env_now E) r)))"
    and router_teardown_path: "preserves I (teardown_path from key path_id)"
    and router_acks: "preserves I (handle_bootstrap_ack E ack)" "preserves I (handle_setup E from setup next_hop)"
      "preserves I (handle_setup_ack E from setup_ack)"
    and router_running: "I r \<Longrightarrow> I (r\<lparr>running := b\<rparr>)"
    and router_new_port: "I r \<Longrightarrow> new_port_from (ports r) 1 = Some p \<Longrightarrow> I (r\<lparr>ports := hm_insert p None (ports r)\<rparr>)"
    and router_assign_port: "I r \<Longrightarrow> p \<noteq> 0 \<Longrightarrow> I (r\<lparr>ports := hm_insert p (Some peer) (ports r)\<rparr>)"
    and router_remove_port: "I r \<Longrightarrow> I (r\<lparr>ports := hm_remove p (ports r)\<rparr>)"
    and router_add_connection: "I r \<Longrightarrow> I (r\<lparr>upload_connections := hm_insert peer u (upload_connections r),
      download_connections := hm_insert peer d (download_connections r)\<rparr>)"
    and router_remove_peer: "I r \<Longrightarrow> I (r\<lparr>announcements := hm_remove peer (announcements r),
      upload_connections := hm_remove peer (upload_connections r),
      download_connections := hm_remove peer (download_connections r)\<rparr>)"

sublocale router_contract \<subseteq> frame_contract I "\<lambda>f. \<not> is_announcement f" C W
  by unfold_locales
    (assumption | (intro preserve router_acks router_announcement router_parent_selection router_maintain_tree
      router_set_reparent_timer router_first_announcement router_teardown_path router_running router_new_port
      router_assign_port router_remove_port router_add_connection router_remove_peer; assumption?))+

text \<open>An invariant that does not look at sending and allows every announcement that is clean.\<close>

locale router_invariant = tree_invariant +
  assumes inv_teardown: "preserves I (teardown_path from key path_id)"
    and inv_bootstrap_ack: "preserves I (handle_bootstrap_ack E ack)"
    and inv_setup: "preserves I (handle_setup E from setup next_hop)"
    and inv_setup_ack: "preserves I (handle_setup_ack E from setup_ack)"
    and inv_run: "I r \<Longrightarrow> I (r\<lparr>running := b\<rparr>)"
    and inv_reserve_port: "I r \<Longrightarrow> new_port_from (ports r) 1 = Some p \<Longrightarrow> I (r\<lparr>ports := hm_insert p None (ports r)\<rparr>)"
    and inv_set_port: "I r \<Longrightarrow> p \<noteq> 0 \<Longrightarrow> I (r\<lparr>ports := hm_insert p (Some peer) (ports r)\<rparr>)"
    and inv_free_port: "I r \<Longrightarrow> I (r\<lparr>ports := hm_remove p (ports r)\<rparr>)"
    and inv_set_sockets: "I r \<Longrightarrow> I (r\<lparr>upload_connections := hm_insert peer u (upload_connections r),
      download_connections := hm_insert peer d (download_connections r)\<rparr>)"
    and inv_forget_peer: "I r \<Longrightarrow> I (r\<lparr>announcements := hm_remove peer (announcements r),
      upload_connections := hm_remove peer (upload_connections r),
      download_connections := hm_remove peer (download_connections r)\<rparr>)"

sublocale router_invariant \<subseteq> router_contract I C "\<lambda>k f. True"
  by unfold_locales
    (intro preserve inv_teardown inv_bootstrap_ack inv_setup inv_setup_ack inv_run inv_reserve_port
      inv_set_port inv_free_port inv_set_sockets inv_forget_peer; assumption)+

context router_invariant
begin

lemma router_step_keeps: "router_step C r r' \<Longrightarrow> I r \<Longrightarrow> I r'"
  by (rule step_keeps [OF router_step_heard])

lemma reachable_keeps: "reachable C key r \<Longrightarrow> I (new_router C key) \<Longrightarrow> I r"
  by (induction rule: reachable.induct) (auto intro: router_step_keeps)

end

section \<open>What holds in every reachable state\<close>

text \<open>Sockets come in pairs, and the keys of the node never change.\<close>

definition sockets_paired :: "router_state \<Rightarrow> bool" where
  "sockets_paired r \<longleftrightarrow> dom (hm_get (upload_connections r)) = dom (hm_get (download_connections r))"

interpretation clean_paths: snek_insensitive "announcements_clean C"
  by unfold_locales (simp add: announcements_clean_def tree_announcement_of_def)

interpretation clean_router: router_invariant "announcements_clean C" C
  by unfold_locales
    (intro preserve | auto simp: announcements_clean_def tree_announcement_of_def split: if_splits)+

interpretation ports_tree: tree_invariant ports_wf C
  by unfold_locales (auto simp: ports_wf_def)

interpretation ports_paths: snek_insensitive ports_wf
  by unfold_locales (simp add: ports_wf_def)

interpretation ports_router: router_invariant ports_wf C
  by unfold_locales (intro preserve | auto simp: ports_wf_def dest: new_port_from_Some)+

interpretation paired_tree: tree_invariant sockets_paired C
  by unfold_locales (auto simp: sockets_paired_def)

interpretation paired_paths: snek_insensitive sockets_paired
  by unfold_locales (simp add: sockets_paired_def)

interpretation paired_router: router_invariant sockets_paired C
  by unfold_locales (intro preserve | auto simp: sockets_paired_def)+

interpretation key_tree: tree_invariant "\<lambda>r. private_key r = key" C
  by unfold_locales auto

interpretation key_paths: snek_insensitive "\<lambda>r. private_key r = key"
  by unfold_locales simp

interpretation key_router: router_invariant "\<lambda>r. private_key r = key" C
  by unfold_locales (intro preserve | simp)+

interpretation snek_router: router_invariant "snek_inv own" C
  by unfold_locales (intro preserve | simp add: snek_inv_def)+

lemma reachable_snek_inv: "reachable C key r \<Longrightarrow> snek_inv (verification_key C key) r"
  by (erule snek_router.reachable_keeps) (simp add: snek_inv_def new_router_def)

text \<open>
  C3: the invariants of a router. In every state a router can reach, by any sequence of calls,
  received frames, timers and tasks, panics included: the key pair is the one it was created
  with; every stored announcement passed the integrity check for its peer; the path table is
  indexed by its entries; the ascending path and the candidate start here and lead to a higher
  key, the descending path ends here and comes from a lower key; the port table has one entry
  per port and none for port zero; and each peer has both sockets or none.
\<close>

theorem reachable_invariants:
  assumes "reachable C key r"
  shows "private_key r = key \<and> public_key r = verification_key C key \<and>
    announcements_clean C r \<and> snek_inv (verification_key C key) r \<and> ports_wf r \<and> sockets_paired r"
proof -
  have "announcements_clean C r"
    using assms by (rule clean_router.reachable_keeps)
      (simp add: announcements_clean_def new_router_def tree_announcement_of_def)
  moreover have "ports_wf r" "sockets_paired r" "private_key r = key"
    using assms ports_router.reachable_keeps paired_router.reachable_keeps key_router.reachable_keeps
    by (auto simp: ports_wf_def sockets_paired_def new_router_def)
  ultimately show ?thesis
    using reachable_snek_inv [OF assms] by (simp add: snek_inv_def)
qed

lemma reachable_clean: "reachable C key r \<Longrightarrow> announcements_clean C r"
  by (erule clean_router.reachable_keeps)
    (simp add: announcements_clean_def new_router_def tree_announcement_of_def)

text \<open>
  C30: tree routing never panics. In every reachable state the search for the next hop returns:
  this node, or a peer with a stored announcement of the current root that is strictly closer
  to the destination, or none.
\<close>

theorem tree_routing_total:
  assumes "reachable C key r"
  shows "\<exists>hop. next_tree_hop r dest from = Some hop \<and>
    (hop = None \<or> hop = Some (public_key r) \<and> dest = coordinates_of r \<or>
     (\<exists>p. hop = Some p \<and> p \<in> set (peers r) \<and> p \<noteq> from \<and> best_hop r dest from p))"
proof (cases "dest = coordinates_of r")
  case True
  then show ?thesis by (simp add: next_tree_hop_here)
next
  case False
  have "announcements_signed r"
    using assms by (intro announcements_clean_signed reachable_clean)
  then consider p where "next_tree_hop r dest from = Some (Some p)" "best_hop r dest from p"
    | "next_tree_hop r dest from = Some None"
    using next_tree_hop_cases [OF _ False] by blast
  then show ?thesis
    by cases (auto simp: best_hop_def hop_eligible_def)
qed

section \<open>Frames between peers\<close>

lemma act_get_apply: "act_get f r = f r r"
  by (simp add: act_get_def)

lemma act_bind_ret: "m r = (Some x, r') \<Longrightarrow> act_bind m f r = f x r'"
  by (simp add: act_bind_def)

text \<open>
  A teardown from a peer stops here. Handling one removes the path it names but sends
  nothing: the ports \<open>teardown_path\<close> returns for forwarding are dropped, so the nodes further
  along the path keep their entries.
\<close>

theorem received_teardown_not_forwarded:
  assumes "port_of r from = Some p" and "hm_wf (paths r)"
  shows "\<exists>r'. handle_frame E (SnekTeardown rx) from r = (Some (Inr ()), r') \<and>
    sent r' = sent r \<and> spawned r' = spawned r \<and>
    (\<forall>e. hm_get (paths r) (Snek_Path_Index (td_destination_key rx) (td_path_id rx)) = Some e \<and>
       p \<in> {path_source e, path_destination e} \<longrightarrow>
       hm_get (paths r') (Snek_Path_Index (td_destination_key rx) (td_path_id rx)) = None)"
proof -
  let ?i = "Snek_Path_Index (td_destination_key rx) (td_path_id rx)"
  let ?run = "teardown_path p (td_destination_key rx) (td_path_id rx) r"
  have "fst ?run \<noteq> None" "sent (snd ?run) = sent r" "spawned (snd ?run) = spawned r"
    "hm_get (paths r) ?i = Some e \<Longrightarrow> p \<in> {path_source e, path_destination e} \<Longrightarrow> hm_get (paths (snd ?run)) ?i = None" for e
    using assms(2) by (auto simp: teardown_path_run Let_def split: option.split)
  then obtain hops r' where "?run = (Some hops, r')" "sent r' = sent r" "spawned r' = spawned r"
    "\<forall>e. hm_get (paths r) ?i = Some e \<and> p \<in> {path_source e, path_destination e} \<longrightarrow> hm_get (paths r') ?i = None"
    by (cases ?run) auto
  then show ?thesis
    using assms(1)
    by (simp add: act_get_def act_unwrap_def done_ok_def handle_teardown_def act_seq_def act_bind_def act_ret_def)
qed

section \<open>Accepting a connection\<close>

lemma get_new_port_run:
  "new_port_from (ports r) 1 = Some p \<Longrightarrow> get_new_port r = (Some p, r\<lparr>ports := hm_insert p None (ports r)\<rparr>)"
  by (simp add: get_new_port_def act_defs)

lemma current_announcement_ports [simp]: "current_announcement now (r\<lparr>ports := ps\<rparr>) = current_announcement now r"
  by (simp add: current_announcement_def tree_announcement_of_def split: option.split)

lemma accept_peer_run:
  assumes "ann_signatures a \<noteq> []" and "key = signing_public_key (last (ann_signatures a))"
    and "hm_get (upload_connections r) key = None" and "hm_get (download_connections r) key = None"
  shows "accept_peer E p u d a r =
    (let (res, r') = handle_tree_announcement E a key
        (r\<lparr>upload_connections := hm_insert key u (upload_connections r),
           download_connections := hm_insert key d (download_connections r),
           ports := hm_insert p (Some key) (hm_insert p (Some key) (ports r)),
           spawned := spawned r @ [Peer_Loop key]\<rparr>)
     in (map_option (\<lambda>_. Inr key) res, r'))"
  using assms
  by (simp add: accept_peer_def add_peer_def spawn_peer_def spawn_def hm_contains_key_def act_defs Let_def
      done_ok_def split: prod.split option.split)

text \<open>
  Accepting does not authenticate. When the first announcement on a new connection fails
  the integrity check, \<open>connect\<close> still succeeds: it returns the key the announcement claims as
  its last signer, gives that key a port and both sockets and starts polling it. Only the
  announcement itself is dropped.
\<close>

theorem connect_accepts_unverified:
  assumes "new_port_from (ports r) 1 = Some p"
    and "env_sink_send E u
      (TreeAnnouncement (append_signature (env_crypto E) (current_announcement (env_now E) r) (private_key r) p)) = None"
    and "ann_signatures a \<noteq> []" and "key = signing_public_key (last (ann_signatures a))"
    and "is_clean (env_crypto E) a key = Some False"
    and "hm_get (upload_connections r) key = None" and "hm_get (download_connections r) key = None"
    and "ordering r \<noteq> - 1"
  shows "\<exists>r'. connect E u d (Some (Inr (TreeAnnouncement a))) r = (Some (Inr key), r') \<and>
    get_peer_on_port r' p = Some key \<and> key \<in> set (peers r') \<and>
    hm_get (upload_connections r') key = Some u \<and> hm_get (download_connections r') key = Some d \<and>
    Peer_Loop key \<in> set (spawned r') \<and> announcements r' = announcements r"
proof -
  have p: "p \<noteq> 0"
    using new_port_from_Some [OF assms(1)] by auto
  let ?r = "r\<lparr>upload_connections := hm_insert key u (upload_connections r),
     download_connections := hm_insert key d (download_connections r),
     ports := hm_insert p (Some key) (hm_insert p (Some key) (hm_insert p None (ports r))),
     spawned := spawned r @ [Peer_Loop key]\<rparr>"
  have "connect E u d (Some (Inr (TreeAnnouncement a))) r =
      accept_peer E p u d a (r\<lparr>ports := hm_insert p None (ports r)\<rparr>)"
    using assms(2)
    by (simp add: connect_def act_bind_def get_new_port_run [OF assms(1)] greet_peer_def act_get_def)
  also have "\<dots> = (Some (Inr key), ?r\<lparr>ordering := ordering r + 1\<rparr>)"
    using assms by (simp add: accept_peer_run handle_tree_announcement_run)
  finally have run: "connect E u d (Some (Inr (TreeAnnouncement a))) r = (Some (Inr key), ?r\<lparr>ordering := ordering r + 1\<rparr>)" .
  have port: "hm_get (ports ?r) p = Some (Some key)"
    by simp
  then have "(p, Some key) \<in> set (hm_entries (ports ?r))"
    by (rule hm_get_in_entries)
  then have "key \<in> set (peers (?r\<lparr>ordering := ordering r + 1\<rparr>))"
    by (auto simp: peers_def set_port_peers)
  then show ?thesis
    using p by (simp add: run get_peer_on_port_def)
qed

text \<open>How \<open>connect\<close> fails, given what the sink and the stream answer.\<close>

definition greeting_error :: "router_error option \<Rightarrow> (router_error + frame) option \<Rightarrow> router_error option" where
  "greeting_error sink first =
     (case sink of
        Some e \<Rightarrow> Some e
      | None \<Rightarrow>
          (case first of
             None \<Rightarrow> Some ConnectionClosed
           | Some (Inl e) \<Rightarrow> Some e
           | Some (Inr (TreeAnnouncement a)) \<Rightarrow> if ann_signatures a = [] then Some MissingSignature else None
           | Some (Inr _) \<Rightarrow> Some InvalidFrame))"

lemma failed_connect_run:
  assumes "new_port_from (ports r) 1 = Some p"
    and "greeting_error (env_sink_send E u (TreeAnnouncement
      (append_signature (env_crypto E) (current_announcement (env_now E) r) (private_key r) p))) first = Some e"
  shows "connect E u d first r = (Some (Inl e), r\<lparr>ports := hm_insert p None (ports r)\<rparr>)"
  using assms(2)
  by (auto simp: connect_def act_bind_def get_new_port_run [OF assms(1)] greet_peer_def act_get_def act_ret_def
      greeting_error_def accept_peer_def split: option.splits sum.splits frame.splits if_splits)

text \<open>
  Failed connections leak ports. Whatever makes \<open>connect\<close> fail before a peer is known - the
  sink refuses the announcement, the stream ends, yields an error, another frame or an unsigned
  announcement - the port reserved for the connection stays reserved; nothing else changes.
\<close>

theorem failed_connect_leaks_port:
  assumes "new_port_from (ports r) 1 = Some p"
    and "greeting_error (env_sink_send E u (TreeAnnouncement
      (append_signature (env_crypto E) (current_announcement (env_now E) r) (private_key r) p))) first = Some e"
  shows "connect E u d first r = (Some (Inl e), r\<lparr>ports := hm_insert p None (ports r)\<rparr>) \<and>
    new_port_from (hm_insert p None (ports r)) 1 \<noteq> Some p"
  using failed_connect_run [OF assms] new_port_from_Some by (fastforce simp: hm_contains_key_def)

section \<open>Losing a peer\<close>

lemma bootstrap_now_state: "\<exists>x. snd (bootstrap_now E r) = r\<lparr>sent := x\<rparr>"
proof -
  let ?I = "\<lambda>s. \<exists>x. s = r\<lparr>sent := x\<rparr>"
  have "preserves ?I (send_logged E (SnekBootstrap f) k)" for f k
  proof (rule preservesI)
    fix s assume "?I s"
    then obtain x where "s = r\<lparr>sent := x\<rparr>" ..
    then have "snd (send_logged E (SnekBootstrap f) k s) = r\<lparr>sent := sent s @ frames_to E s k (SnekBootstrap f)\<rparr>"
      by (simp add: send_logged_run)
    then show "?I (snd (send_logged E (SnekBootstrap f) k s))" ..
  qed
  then have "preserves ?I (bootstrap_now E)"
    unfolding bootstrap_now_def Let_def by (intro preserve)
  moreover have "?I r"
    by (rule exI [of _ "sent r"]) simp
  ultimately show ?thesis
    by (rule preservesD)
qed

text \<open>The teardowns scheduled for a port, and whether the ascending path uses it.\<close>

definition port_teardowns :: "router_state \<Rightarrow> port \<Rightarrow> task list" where
  "port_teardowns r p =
     map (\<lambda>(k, e). Send_Teardown p (pi_public_key k) (pi_path_id k))
       (filter (\<lambda>(k, e). path_destination e = p \<or> path_source e = p) (hm_entries (paths r)))"

definition ascends_through :: "router_state \<Rightarrow> port \<Rightarrow> bool" where
  "ascends_through r p \<longleftrightarrow> (case ascending_path r of Some asc \<Rightarrow> path_destination asc = p | None \<Rightarrow> False)"

lemma port_teardowns_run:
  "act_get (\<lambda>r. act_for (hm_entries (paths r)) (\<lambda>(k, e). act_when (path_destination e = p \<or> path_source e = p)
     (send_teardown_for_existing_path p (pi_public_key k) (pi_path_id k)))) r =
   (Some (), r\<lparr>spawned := spawned r @ port_teardowns r p\<rparr>)"
  using act_for_spawn [of "hm_entries (paths r)" "\<lambda>(k, e). path_destination e = p \<or> path_source e = p"
      "\<lambda>(k, e). Send_Teardown p (pi_public_key k) (pi_path_id k)" r]
  by (simp add: act_get_def send_teardown_for_existing_path_def port_teardowns_def case_prod_unfold)

lemma disconnect_port_run:
  assumes "snek_inv own r" and "p \<noteq> 0"
  shows "disconnect_port p r =
    (Some (ascends_through r p),
     r\<lparr>spawned := spawned r @ port_teardowns r p,
       paths := (if ascends_through r p then hm_remove (path_index (the (ascending_path r))) (paths r) else paths r),
       ascending_path := (if ascends_through r p then None else ascending_path r),
       ports := hm_remove p (ports r)\<rparr>)"
proof -
  let ?r1 = "r\<lparr>spawned := spawned r @ port_teardowns r p\<rparr>"
  have down: "path_destination d = 0" if "descending_path r = Some d" for d
    using assms(1) that by (simp add: snek_inv_def down_path_def)
  have wf: "hm_wf (paths r)"
    using assms(1) by (rule snek_inv_wf)
  have up: "teardown_path 0 (pi_public_key (path_index asc)) (pi_path_id (path_index asc)) ?r1 =
      (Some [path_destination asc], ?r1\<lparr>paths := hm_remove (path_index asc) (paths r), ascending_path := None\<rparr>)"
    if "ascending_path r = Some asc" for asc
    using wf that by (simp add: teardown_path_run Let_def teardown_hits_def index_matches_def)
  let ?r2 = "?r1\<lparr>paths := (if ascends_through r p then hm_remove (path_index (the (ascending_path r))) (paths r) else paths r),
    ascending_path := (if ascends_through r p then None else ascending_path r)\<rparr>"
  have asc: "act_get (\<lambda>r. case ascending_path r of
      Some asc \<Rightarrow>
        if path_destination asc = p
        then act_bind (teardown_path 0 (pi_public_key (path_index asc)) (pi_path_id (path_index asc))) (\<lambda>hops. act_ret True)
        else act_ret False
    | None \<Rightarrow> act_ret False) ?r1 = (Some (ascends_through r p), ?r2)"
  proof (cases "ascending_path r")
    case None
    then show ?thesis by (simp add: ascends_through_def act_ret_def act_get_def)
  next
    case (Some a)
    then show ?thesis
      using up [OF Some] by (simp add: ascends_through_def act_ret_def act_bind_def act_get_def)
  qed
  have desc: "act_get (\<lambda>r. case descending_path r of
      Some desc \<Rightarrow>
        if path_destination desc = p
        then act_bind (teardown_path 0 (pi_public_key (path_index desc)) (pi_path_id (path_index desc))) (\<lambda>hops. act_ret ())
        else act_ret ()
    | None \<Rightarrow> act_ret ()) ?r2 = (Some (), ?r2)"
    using down assms(2) by (cases "descending_path r") (simp_all add: act_ret_def act_get_def)
  show ?thesis
    unfolding disconnect_port_def act_seq_def
    by (rule trans [OF act_bind_ret], rule port_teardowns_run, rule trans [OF act_bind_ret], rule asc,
        rule trans [OF act_bind_ret], rule desc)
      (simp add: act_bind_def act_modify_def act_ret_def)
qed

text \<open>
  Losing a peer leaves the descending path behind. When a peer goes whose port carries the
  descending path, its entry is scheduled for a teardown, but the path itself stays set: the
  code looks for the port in the wrong field, which is always zero. The ascending path is
  cleared when it used the port.
\<close>

theorem disconnect_keeps_descending:
  assumes "snek_inv own r" and "p \<noteq> 0"
    and "descending_path r = Some d" and "path_source d = p" and "hm_get (paths r) (path_index d) = Some d"
  shows "\<exists>bootstrap r'. disconnect_port p r = (Some bootstrap, r') \<and>
    get_peer_on_port r' p = None \<and> descending_path r' = Some d \<and>
    (bootstrap \<longleftrightarrow> ascends_through r p) \<and>
    (bootstrap \<longrightarrow> ascending_path r' = None) \<and>
    Send_Teardown p (pi_public_key (path_index d)) (pi_path_id (path_index d)) \<in> set (spawned r')"
proof -
  have "(path_index d, d) \<in> set (hm_entries (paths r))"
    using assms(5) by (rule hm_get_in_entries)
  then have "Send_Teardown p (pi_public_key (path_index d)) (pi_path_id (path_index d)) \<in> set (port_teardowns r p)"
    using assms(4) by (force simp: port_teardowns_def)
  then show ?thesis
    using assms(2,3) by (simp add: disconnect_port_run [OF assms(1,2)] get_peer_on_port_def)
qed

text \<open>
  C34: losing the parent with the ascending path. When the peer that goes is the parent and
  carries the ascending path, no new parent is selected: the request to bootstrap, already
  set, short-circuits the selection. The node keeps a parent it has no announcement and no
  socket for, reports itself as root and has no coordinates, until the next re-parenting.
\<close>

theorem dead_parent_kept:
  assumes "snek_inv own r" and "port_of r peer = Some p" and "p \<noteq> 0" and "parent r = peer"
    and "ascends_through r p"
  shows "let r' = snd (disconnect_peer E peer r)
    in parent r' = peer \<and> tree_announcement_of r' peer = None \<and>
      hm_get (upload_connections r') peer = None \<and> hm_get (download_connections r') peer = None \<and>
      current_root r' = Root (public_key r) (sequence r) \<and> coordinates_of r' = []"
proof -
  define r1 where "r1 = snd (disconnect_port p r)"
  define r2 where "r2 = r1\<lparr>announcements := hm_remove peer (announcements r1),
    upload_connections := hm_remove peer (upload_connections r1),
    download_connections := hm_remove peer (download_connections r1)\<rparr>"
  have r1: "disconnect_port p r = (Some True, r1)" "parent r1 = peer" "public_key r1 = public_key r"
      "sequence r1 = sequence r"
    using assms(4,5) by (simp_all add: r1_def disconnect_port_run [OF assms(1,3)])
  have "disconnect_peer E peer r = bootstrap_now E r2"
    using r1 assms(2)
    by (simp add: disconnect_peer_def act_get_def act_bind_def act_seq_def act_modify_def act_ret_def act_when_def
        r2_def)
  then obtain x where "snd (disconnect_peer E peer r) = r2\<lparr>sent := x\<rparr>"
    using bootstrap_now_state [of E r2] by auto
  moreover have "tree_announcement_of (r2\<lparr>sent := x\<rparr>) peer = None"
    by (simp add: r2_def tree_announcement_of_def)
  ultimately show ?thesis
    using r1 by (simp add: current_root_def coordinates_of_def current_announcement_def coords_def r2_def)
qed

section \<open>Frames that panic\<close>

lemma spawned_neutral [simp]:
  "tree_announcement_of (r\<lparr>spawned := x\<rparr>) = tree_announcement_of r"
  "current_root (r\<lparr>spawned := x\<rparr>) = current_root r" "coordinates_of (r\<lparr>spawned := x\<rparr>) = coordinates_of r"
  "announcements_signed (r\<lparr>spawned := x\<rparr>) = announcements_signed r"
  "hop_eligible (r\<lparr>spawned := x\<rparr>) = hop_eligible r"
proof -
  show ann: "tree_announcement_of (r\<lparr>spawned := x\<rparr>) = tree_announcement_of r"
    by (simp add: tree_announcement_of_def fun_eq_iff)
  have "current_announcement 0 (r\<lparr>spawned := x\<rparr>) = current_announcement 0 r"
    by (simp add: current_announcement_def ann split: option.split)
  then show root: "current_root (r\<lparr>spawned := x\<rparr>) = current_root r"
    and "coordinates_of (r\<lparr>spawned := x\<rparr>) = coordinates_of r"
    by (simp_all only: current_root_def coordinates_of_def)
  show "announcements_signed (r\<lparr>spawned := x\<rparr>) = announcements_signed r"
    by (simp add: announcements_signed_def ann)
  show "hop_eligible (r\<lparr>spawned := x\<rparr>) = hop_eligible r"
    by (simp add: fun_eq_iff hop_eligible_def ann root peers_def)
qed

text \<open>
  C35: two frames a peer can send that end its polling task for good. An announcement without
  signatures, and a setup for which the tree has no next hop, make the dispatch panic; the
  loop then neither goes on nor disconnects the peer, which keeps its port and sockets.
\<close>

theorem frames_that_panic:
  assumes "running r" and "hm_get (download_connections r) peer = Some socket"
    and "ordering r \<noteq> - 1" and "announcements_signed r" and "port_of r peer = Some p"
  shows "(ann_signatures a = [] \<longrightarrow>
      take_task E (Some (Inr (TreeAnnouncement a))) (Peer_Loop peer) r =
        (None, r\<lparr>spawned := remove1 (Peer_Loop peer) (spawned r), ordering := ordering r + 1\<rparr>)) \<and>
    (su_destination s \<noteq> coordinates_of r \<and>
     (\<forall>q b. hop_eligible r peer q b \<longrightarrow>
        distance_to (coordinates_of r) (su_destination s) \<le> distance_to (butlast (coords b)) (su_destination s)) \<longrightarrow>
      take_task E (Some (Inr (SnekSetup s))) (Peer_Loop peer) r =
        (None, r\<lparr>spawned := remove1 (Peer_Loop peer) (spawned r)\<rparr>))"
proof -
  let ?r = "r\<lparr>spawned := remove1 (Peer_Loop peer) (spawned r)\<rparr>"
  have panic: "take_task E (Some (Inr f)) (Peer_Loop peer) r = (None, r')"
    if "handle_frame E f peer ?r = (None, r')" for f r'
    using assms(1,2) that
    by (simp add: take_task_def peer_loop_def poll_peer_def act_seq_def act_bind_def act_modify_def act_get_def)
  have "handle_frame E (TreeAnnouncement a) peer ?r = (None, ?r\<lparr>ordering := ordering r + 1\<rparr>)"
    if "ann_signatures a = []"
  proof -
    have "is_clean (env_crypto E) a peer = None"
      using that by (simp add: is_clean_None_iff)
    then show ?thesis
      using handle_tree_announcement_run [of ?r E a peer] assms(3)
      by (simp add: done_ok_def act_seq_def act_bind_def)
  qed
  moreover have "handle_frame E (SnekSetup s) peer ?r = (None, ?r)"
    if away: "su_destination s \<noteq> coordinates_of r"
      and far: "\<forall>q b. hop_eligible r peer q b \<longrightarrow>
        distance_to (coordinates_of r) (su_destination s) \<le> distance_to (butlast (coords b)) (su_destination s)"
  proof -
    have "next_tree_hop ?r (su_destination s) peer = Some None"
      using next_tree_hop_cases [of ?r "su_destination s" peer] assms(4) away far by (force simp: best_hop_def)
    moreover have "port_of ?r peer = Some p"
      using assms(5) by (auto simp: port_of_def split: if_splits)
    ultimately show ?thesis
      by (simp add: act_get_def act_unwrap_def act_panic_def)
  qed
  ultimately show ?thesis
    using panic by blast
qed

section \<open>Data in the tree\<close>

text \<open>
  A tree packet is delivered or moves on. For this node's own coordinates it goes to the
  local client and to nobody else; otherwise it goes to at most one peer, the best next hop,
  which is strictly closer to the destination, and nothing else changes.
\<close>

theorem tree_packet_forwarded:
  assumes "announcements_signed r" and "env_local_open E" and "public_key r \<notin> set (peers r)"
  shows "if tp_destination_coordinates packet = coordinates_of r
    then handle_frame E (TreeRouted packet) from r =
      (Some (Inr ()), r\<lparr>delivered := delivered r @ [TreeRouted packet]\<rparr>)
    else \<exists>res fs. handle_frame E (TreeRouted packet) from r = (Some res, r\<lparr>sent := sent r @ fs\<rparr>) \<and>
      (fs = [] \<or>
       (\<exists>q. best_hop r (tp_destination_coordinates packet) from q \<and> fs = [(q, TreeRouted packet)]))"
proof (cases "tp_destination_coordinates packet = coordinates_of r")
  case True
  then show ?thesis
    using assms(2)
    by (simp add: forward_tree_def next_tree_hop_here done_ok_def send_to_local_def act_defs)
next
  case False
  let ?dest = "tp_destination_coordinates packet"
  consider q where "next_tree_hop r ?dest from = Some (Some q)" "best_hop r ?dest from q"
    | "next_tree_hop r ?dest from = Some None"
    using next_tree_hop_cases [OF assms(1) False] by blast
  then show ?thesis
  proof cases
    case 1
    then have "q \<noteq> public_key r"
      using assms(3) by (auto simp: best_hop_def hop_eligible_def)
    moreover from this obtain res where
      "send E (TreeRouted packet) q r = (Some res, r\<lparr>sent := sent r @ frames_to E r q (TreeRouted packet)\<rparr>)"
      using send_run [of "TreeRouted packet" q r E] by auto
    moreover have "frames_to E r q f = [] \<or> frames_to E r q f = [(q, f)]" for f
      by (auto simp: frames_to_def split: option.split)
    ultimately show ?thesis
      using 1 False by (fastforce simp: forward_tree_def act_get_def act_unwrap_def)
  next
    case 2
    then show ?thesis
      using False by (auto simp: forward_tree_def act_get_def act_unwrap_def act_ret_def intro!: exI [of _ "[]"])
  qed
qed

section \<open>Waiting to re-parent\<close>

text \<open>
  While a node waits to re-parent it only stores announcements. Running a task that waits
  starts the timer and schedules the selection; until the wait is over, a clean and fresh
  announcement from any peer is stored, and nothing is sent and the parent stays.
\<close>

theorem waiting_only_stores:
  assumes "env_now E' \<le> env_now E + REPARENT_WAIT_TIME" and "ordering r \<noteq> - 1"
    and "is_clean (env_crypto E') a from = Some True" and "\<not> replayed r a from"
  shows "\<exists>r'. run_task E item (Reparent True) r = (Some (), r') \<and>
    spawned r' = spawned r @ [Reparent_Waited] \<and> parent r' = parent r \<and>
    handle_tree_announcement E' a from r' = (Some (), stored E' r' a from)"
proof -
  let ?r = "r\<lparr>reparent_timer := Some (new_wait_timer (env_now E) REPARENT_WAIT_TIME),
    spawned := spawned r @ [Reparent_Waited]\<rparr>"
  have "run_task E item (Reparent True) r = (Some (), ?r)"
    by (simp add: set_reparent_timer_def spawn_def act_seq_def act_bind_def act_modify_def)
  moreover have "\<not> reparent_timer_expired (env_now E') ?r"
    using assms(1) by (simp add: reparent_timer_expired_def is_expired_iff new_wait_timer_def)
  moreover have "replayed ?r a from = replayed r a from"
    by (simp add: replayed_def tree_announcement_of_def)
  ultimately show ?thesis
    using assms(2-4) by (simp add: handle_tree_announcement_run)
qed

section \<open>New ports\<close>

text \<open>
  A port for every connection. As long as not all ports below the greatest are taken, \<open>get_new_port\<close> returns:
  the result is the least free port, never the local port zero, it is reserved, and no other
  entry changes.
\<close>

theorem new_port_fresh:
  assumes "length (ports r) < 2 ^ 64 - 2"
  shows "\<exists>p r'. get_new_port r = (Some p, r') \<and> p \<noteq> 0 \<and> hm_get (ports r) p = None \<and>
    (\<forall>q. 0 < q \<and> q < p \<longrightarrow> hm_get (ports r) q \<noteq> None) \<and>
    hm_get (ports r') = (hm_get (ports r))(p \<mapsto> None)"
proof -
  obtain p where p: "new_port_from (ports r) 1 = Some p"
    using new_port_exists [OF assms] by blast
  have "1 \<le> q" if "0 < q" for q :: port
    using that word_succ(2) [of 0 q] by simp
  then show ?thesis
    using new_port_from_Some [OF p] by (auto simp: get_new_port_run [OF p] hm_contains_key_def)
qed

section \<open>Stopping\<close>

interpretation ports_fixed: parent_insensitive "\<lambda>r. ports r = ps \<and> public_key r = k"
  by unfold_locales simp_all

interpretation stopped_tree: parent_insensitive "\<lambda>r. \<not> running r"
  by unfold_locales simp_all

interpretation stopped_paths: snek_insensitive "\<lambda>r. \<not> running r"
  by unfold_locales simp_all

lemma disconnect_stays_stopped: "preserves (\<lambda>r. \<not> running r) (disconnect_peer E peer)"
  unfolding disconnect_peer_def disconnect_port_def
  by (intro preserve preserves_modify) simp_all

lemma mset_port_peers_remove:
  assumes "hm_wf ps" and "hm_get ps p = Some (Some k)"
  shows "mset (port_peers (hm_remove p ps)) = mset (port_peers ps) - {#k#}"
  using assms
proof (induction ps)
  case (Cons x ps)
  obtain q v where x: "x = (q, v)" by (cases x)
  show ?case
  proof (cases "q = p")
    case True
    with Cons.prems have "p \<notin> fst ` set ps"
      by (auto simp: x hm_wf_def)
    then have "hm_remove p ps = ps"
      by (simp add: hm_remove_def)
    with True Cons.prems show ?thesis
      by (simp add: x hm_remove_def)
  next
    case False
    with Cons have IH: "mset (port_peers (hm_remove p ps)) = mset (port_peers ps) - {#k#}"
      by (simp add: x hm_wf_def)
    have "k \<in> set (port_peers ps)"
      using Cons.prems False by (force simp: x set_port_peers dest: hm_get_in_entries [unfolded hm_entries_def])
    with False IH show ?thesis
      by (simp add: x hm_remove_def split: option.split)
  qed
qed simp

lemma disconnect_peer_ports:
  assumes "snek_inv own r" and "port_of r peer = Some p" and "p \<noteq> 0"
  shows "ports (snd (disconnect_peer E peer r)) = hm_remove p (ports r)"
proof -
  obtain b r1 where r1: "disconnect_port p r = (Some b, r1)" "ports r1 = hm_remove p (ports r)"
    by (simp add: disconnect_port_run [OF assms(1,3)])
  let ?r2 = "r1\<lparr>announcements := hm_remove peer (announcements r1),
    upload_connections := hm_remove peer (upload_connections r1),
    download_connections := hm_remove peer (download_connections r1)\<rparr>"
  let ?rest = "act_get (\<lambda>r. act_bind (if parent r = peer \<and> \<not> b then parent_selection E else act_ret b)
    (\<lambda>bootstrap. act_when bootstrap (bootstrap_now E)))"
  have "preserves (\<lambda>s. ports s = ports r1 \<and> public_key s = public_key r1) ?rest"
    by (intro preserve)
  then have "ports (snd (?rest ?r2)) = ports r1"
    by (auto dest: preservesD [where s = ?r2])
  moreover have "disconnect_peer E peer r = ?rest ?r2"
  proof -
    have first: "(case port_of r peer of Some p \<Rightarrow> disconnect_port p | None \<Rightarrow> act_ret False) r = (Some b, r1)"
      using r1(1) assms(2) by simp
    have second: "act_modify (\<lambda>r. r\<lparr>announcements := hm_remove peer (announcements r),
      upload_connections := hm_remove peer (upload_connections r),
      download_connections := hm_remove peer (download_connections r)\<rparr>) r1 = (Some (), ?r2)"
      by (simp add: act_modify_def)
    show ?thesis
      unfolding disconnect_peer_def act_seq_def
      by (rule trans [OF act_get_apply], rule trans [OF act_bind_ret], rule first,
          rule trans [OF act_bind_ret], rule second) (rule refl)
  qed
  ultimately show ?thesis
    using r1(2) by simp
qed

lemma disconnect_peers_run:
  "mset ks \<subseteq># mset (peers r) \<Longrightarrow> own \<notin> set ks \<Longrightarrow> snek_inv own r \<Longrightarrow> ports_wf r \<Longrightarrow>
    act_for ks (disconnect_peer E) r = (Some (), r') \<Longrightarrow> mset (peers r') = mset (peers r) - mset ks"
proof (induction ks arbitrary: r)
  case Nil
  then show ?case by (simp add: act_ret_def)
next
  case (Cons k ks)
  let ?r1 = "snd (disconnect_peer E k r)"
  have k: "k \<in> set (peers r)"
    using Cons.prems(1) by (metis in_multiset_in_set insert_subset_eq_iff mset.simps(2) set_mset_mset)
  have own: "public_key r = own"
    using Cons.prems(3) by (simp add: snek_inv_def)
  obtain p where p: "port_of r k = Some p"
    using port_of_peer [OF k] by blast
  then have get: "get_peer_on_port r p = Some k"
    by (rule get_peer_on_port_of [OF Cons.prems(4)])
  then have p0: "p \<noteq> 0"
    using Cons.prems(2) own by (auto simp: get_peer_on_port_def)
  then have entry: "hm_get (ports r) p = Some (Some k)"
    using get by (simp add: get_peer_on_port_def split: option.splits)
  have step: "mset (peers ?r1) = mset (peers r) - {#k#}"
    using mset_port_peers_remove [OF _ entry] Cons.prems(4)
    by (simp add: peers_def hm_entries_def disconnect_peer_ports [OF Cons.prems(3) p p0] ports_wf_def)
  have "disconnect_peer E k r = (Some (), ?r1)" and rest: "act_for ks (disconnect_peer E) ?r1 = (Some (), r')"
    using Cons.prems(5) by (auto simp: act_seq_def act_bind_def split: prod.splits option.splits)
  have "snek_inv own ?r1" "ports_wf ?r1"
    using Cons.prems(3,4) snek_router.preserves_disconnect_peer ports_router.preserves_disconnect_peer
    by (blast dest: preservesD)+
  moreover have "mset ks \<subseteq># mset (peers ?r1)"
    using Cons.prems(1) by (simp add: step insert_subset_eq_iff)
  ultimately have "mset (peers r') = mset (peers ?r1) - mset ks"
    using Cons.IH rest Cons.prems(2) by simp
  then show ?case
    by (simp add: step)
qed

text \<open>
  Stopping disconnects everybody. When a reachable router that has not accepted a peer with
  its own key is stopped and no panic interrupts it, it is no longer running and no port leads
  to a peer.
\<close>

theorem stop_disconnects_all:
  assumes "reachable C key r" and "public_key r \<notin> set (peers r)" and "stop E r = (Some (), r')"
  shows "peers r' = [] \<and> \<not> running r'"
proof -
  let ?r = "r\<lparr>running := False\<rparr>"
  have run: "act_for (peers r) (disconnect_peer E) ?r = (Some (), r')"
    using assms(3) by (simp add: stop_def act_seq_def act_bind_def act_modify_def act_get_def peers_def)
  have inv: "snek_inv (public_key r) r" "ports_wf r"
    using assms(1) snek_router.reachable_keeps ports_router.reachable_keeps
    by (auto simp: snek_inv_def new_router_def ports_wf_def)
  have "mset (peers r') = mset (peers ?r) - mset (peers r)"
    by (rule disconnect_peers_run [where own = "public_key r"])
      (use assms(2) run inv in \<open>auto simp: peers_def snek_inv_def ports_wf_def\<close>)
  moreover have "preserves (\<lambda>s. \<not> running s) (act_for (peers r) (disconnect_peer E))"
    by (intro preserve disconnect_stays_stopped)
  ultimately show ?thesis
    using run by (auto simp: peers_def dest: preservesD [where s = ?r])
qed

section \<open>Examples\<close>

text \<open>A fresh node with key 5 that has started and then accepted the root 9.\<close>

definition example_started :: router_state where
  "example_started = snd (start (new_router example_crypto (repeat_byte 5)))"

definition example_connected :: router_state where
  "example_connected = snd (connect example_env 0 0 (Some (Inr (TreeAnnouncement (heard 9 4 1)))) example_started)"

lemma example_connected_reachable: "reachable example_crypto (repeat_byte 5) example_connected"
  unfolding example_connected_def example_started_def
  by (rule reach_step, rule reach_step, rule reach_new, rule step_start, rule step_connect) simp

lemma example_connected_eq:
  "\<exists>x. example_connected = (stored example_env
     ((new_router example_crypto (repeat_byte 5))\<lparr>running := True,
        upload_connections := [(repeat_byte 9, 0)], download_connections := [(repeat_byte 9, 0)],
        ports := [(1, Some (repeat_byte 9))], spawned := [Peer_Loop (repeat_byte 9)]\<rparr>)
     (heard 9 4 1) (repeat_byte 9))\<lparr>parent := repeat_byte 9, sent := x\<rparr>"
    (is "\<exists>x. _ = (stored _ ?r _ _)\<lparr>parent := _, sent := x\<rparr>")
proof -
  let ?a = "heard 9 4 1" and ?fresh = "(new_router example_crypto (repeat_byte 5))\<lparr>running := True\<rparr>"
  let ?kept = "stored example_env ?r ?a (repeat_byte 9)"
  have port: "new_port_from (ports ?fresh) 1 = Some 1"
    by (simp add: new_port_from.simps hm_contains_key_def new_router_def)
  have "example_connected = snd (accept_peer example_env 1 0 0 ?a (?fresh\<lparr>ports := hm_insert 1 None (ports ?fresh)\<rparr>))"
    by (simp add: example_connected_def example_started_def start_def act_modify_def connect_def act_bind_def
        get_new_port_run [OF port] greet_peer_def act_get_def Let_def)
  also have "\<dots> = snd (handle_tree_announcement example_env ?a (repeat_byte 9) ?r)"
    by (subst accept_peer_run [where key = "repeat_byte 9"])
      (simp_all add: new_router_def hm_insert_def heard_def case_prod_unfold Let_def)
  finally have eq: "example_connected = snd (handle_tree_announcement example_env ?a (repeat_byte 9) ?r)" .
  have clean: "is_clean example_crypto ?a (repeat_byte 9) = Some True"
    by simp
  have root: "current_root ?kept = Root (repeat_byte 5) 0"
    by (simp add: current_root_def current_announcement_def tree_announcement_of_def stored_def new_router_def)
  have "\<not> replayed ?r ?a (repeat_byte 9)" "reparent_timer_expired 100 ?r" "ordering ?r \<noteq> - 1"
      "parent ?r \<noteq> repeat_byte 9" "public_key ?r = repeat_byte 5"
    by (simp_all add: new_router_def replayed_def tree_announcement_of_def reparent_timer_expired_def)
  then have "handle_tree_announcement example_env ?a (repeat_byte 9) ?r =
      announcement_from_other example_env (stamped example_env ?r ?a) (repeat_byte 9) ?kept"
    by (simp add: handle_tree_announcement_run clean del: heard_clean)
  also have "\<dots> = send_tree_announcements_to_all example_env
      (current_announcement 100 (?kept\<lparr>parent := repeat_byte 9\<rparr>)) (?kept\<lparr>parent := repeat_byte 9\<rparr>)"
    using root by (simp add: announcement_from_other_def set_parent_def act_defs Let_def new_router_def)
  finally show ?thesis
    by (simp only: eq send_to_all_run snd_conv) blast
qed

lemma example_connected_simps [simp]:
  "public_key example_connected = repeat_byte 5" "peers example_connected = [repeat_byte 9]"
  "parent example_connected = repeat_byte 9" "coordinates_of example_connected = [4]"
proof -
  obtain x where eq: "example_connected = (stored example_env
     ((new_router example_crypto (repeat_byte 5))\<lparr>running := True,
        upload_connections := [(repeat_byte 9, 0)], download_connections := [(repeat_byte 9, 0)],
        ports := [(1, Some (repeat_byte 9))], spawned := [Peer_Loop (repeat_byte 9)]\<rparr>)
     (heard 9 4 1) (repeat_byte 9))\<lparr>parent := repeat_byte 9, sent := x\<rparr>"
    using example_connected_eq by blast
  show "public_key example_connected = repeat_byte 5" "parent example_connected = repeat_byte 9"
    by (simp_all add: eq) (simp add: new_router_def)
  show "peers example_connected = [repeat_byte 9]"
    by (simp add: eq peers_def hm_entries_def stored_def)
  show "coordinates_of example_connected = [4]"
    by (simp add: eq coordinates_of_def current_announcement_def tree_announcement_of_def stored_def)
qed

theorem reachable_invariants_witness:
  "announcements_clean example_crypto example_connected \<and> snek_inv (repeat_byte 5) example_connected \<and>
   ports_wf example_connected \<and> sockets_paired example_connected"
  using reachable_invariants [OF example_connected_reachable] by simp

theorem tree_routing_total_witness: "\<exists>hop. next_tree_hop example_connected [7] (repeat_byte 6) = Some hop"
  using tree_routing_total [OF example_connected_reachable, of "[7]" "repeat_byte 6"] by blast

theorem received_teardown_not_forwarded_witness:
  "let r' = snd (handle_frame example_env (SnekTeardown \<lparr>td_root = Root (repeat_byte 9) 1,
       td_destination_key = repeat_byte 3, td_path_id = 8\<rparr>) (repeat_byte 6) example_snek)
   in hm_get (paths r') (Snek_Path_Index (repeat_byte 3) 8) = None \<and> sent r' = []"
  using received_teardown_not_forwarded [of example_snek "repeat_byte 6" 2 example_env
      "\<lparr>td_root = Root (repeat_byte 9) 1, td_destination_key = repeat_byte 3, td_path_id = 8\<rparr>"]
  by (auto simp: hm_wf_def)

lemma example_new_port: "new_port_from (ports example_router) 1 = Some 3"
  by (simp add: example_router_def new_port_from.simps hm_contains_key_def)

theorem connect_accepts_unverified_witness:
  "\<exists>r'. connect example_env 2 2 (Some (Inr (TreeAnnouncement (heard 11 0 1)))) example_router =
      (Some (Inr (repeat_byte 11)), r') \<and> get_peer_on_port r' 3 = Some (repeat_byte 11)"
proof -
  have "is_clean example_crypto (heard 11 0 1) (repeat_byte 11) = Some False"
    by (simp add: is_clean_def heard_def)
  moreover have "signing_public_key (last (ann_signatures (heard 11 0 1))) = repeat_byte 11"
    by (simp add: heard_def)
  ultimately show ?thesis
    using connect_accepts_unverified [OF example_new_port, of example_env 2 "heard 11 0 1" "repeat_byte 11" 2]
    by (auto simp del: heard_clean)
qed

theorem failed_connect_leaks_port_witness:
  "connect example_env 2 2 None example_router =
     (Some (Inl ConnectionClosed), example_router\<lparr>ports := hm_insert 3 None (ports example_router)\<rparr>)"
  using failed_connect_leaks_port [OF example_new_port, of example_env 2 None ConnectionClosed 2]
  by (simp add: greeting_error_def)

theorem disconnect_keeps_descending_witness:
  "\<exists>bootstrap r'. disconnect_port 2 example_snek = (Some bootstrap, r') \<and>
     get_peer_on_port r' 2 = None \<and> descending_path r' = Some example_down"
  using disconnect_keeps_descending [OF example_snek_inv, of 2 example_down] by auto

definition example_up :: snek_path where
  "example_up = (own_entry example_env (repeat_byte 5) 1 example_ack)\<lparr>path_active := True\<rparr>"

theorem dead_parent_kept_witness:
  "let r' = snd (disconnect_peer example_env (repeat_byte 9) (example_snek\<lparr>ascending_path := Some example_up\<rparr>))
   in parent r' = repeat_byte 9 \<and> coordinates_of r' = []"
proof -
  have "snek_inv (repeat_byte 5) (example_snek\<lparr>ascending_path := Some example_up\<rparr>)"
    using example_snek_inv by (simp add: snek_inv_def up_path_def example_up_def own_entry_def example_ack_def)
  moreover have "port_of (example_snek\<lparr>ascending_path := Some example_up\<rparr>) (repeat_byte 9) = Some 1"
    using example_router_simps(21) by (simp add: port_of_def example_snek_def split: if_splits)
  moreover have "ascends_through (example_snek\<lparr>ascending_path := Some example_up\<rparr>) 1"
    by (simp add: ascends_through_def example_up_def own_entry_def)
  ultimately show ?thesis
    using dead_parent_kept [of "repeat_byte 5" "example_snek\<lparr>ascending_path := Some example_up\<rparr>" "repeat_byte 9" 1 example_env]
    by (simp add: Let_def)
qed

theorem frames_that_panic_witness:
  "fst (take_task example_env (Some (Inr (TreeAnnouncement (root_announcement (Root (repeat_byte 9) 2) 0))))
      (Peer_Loop (repeat_byte 9)) example_router) = None \<and>
   fst (take_task example_env (Some (Inr (SnekSetup ((example_setup 3 7)\<lparr>su_destination := [7]\<rparr>))))
      (Peer_Loop (repeat_byte 9)) example_router) = None"
  using frames_that_panic [of example_router "repeat_byte 9" 0 1 "root_announcement (Root (repeat_byte 9) 2) 0"
      example_env "(example_setup 3 7)\<lparr>su_destination := [7]\<rparr>"]
  by (simp add: root_announcement_def hop_eligible_def)

theorem tree_packet_forwarded_witness:
  "handle_frame example_env (TreeRouted \<lparr>tp_source_coordinates = [7], tp_destination_coordinates = [4],
      tp_payload = [1]\<rparr>) (repeat_byte 9) example_router =
    (Some (Inr ()), example_router\<lparr>delivered := [TreeRouted \<lparr>tp_source_coordinates = [7],
      tp_destination_coordinates = [4], tp_payload = [1]\<rparr>]\<rparr>)"
  using tree_packet_forwarded [of example_router example_env "\<lparr>tp_source_coordinates = [7],
      tp_destination_coordinates = [4], tp_payload = [1]\<rparr>" "repeat_byte 9"]
  by (simp del: handle_frame.simps)

theorem waiting_only_stores_witness:
  "\<exists>r'. run_task example_env None (Reparent True) example_router = (Some (), r') \<and>
     sent (snd (handle_tree_announcement example_env (heard 11 4 1) (repeat_byte 11) r')) = sent r'"
  using waiting_only_stores [of example_env example_env example_router "heard 11 4 1" "repeat_byte 11" None]
  by auto

theorem new_port_fresh_witness: "\<exists>p r'. get_new_port example_router = (Some p, r') \<and> p \<noteq> 0"
  using new_port_fresh [of example_router] by (auto simp: example_router_def)

lemma disconnect_last_peer:
  assumes "snek_inv own r" and "port_of r peer = Some p" and "p \<noteq> 0" and "\<not> ascends_through r p"
    and "peers (r\<lparr>ports := hm_remove p (ports r)\<rparr>) = []"
  shows "fst (disconnect_peer E peer r) = Some ()"
proof -
  have "peers (r\<lparr>spawned := ts, ports := hm_remove p (ports r), announcements := as, upload_connections := us,
      download_connections := ds\<rparr>) = []" for ts as us ds
    using assms(5) by (simp add: peers_def)
  then show ?thesis
    using assms(1-4)
    by (simp add: disconnect_peer_def disconnect_port_run parent_selection_run act_defs)
qed

theorem stop_disconnects_all_witness: "peers (snd (stop example_env example_connected)) = []"
proof -
  let ?r = "example_connected\<lparr>running := False\<rparr>"
  obtain x where eq: "example_connected = (stored example_env
     ((new_router example_crypto (repeat_byte 5))\<lparr>running := True,
        upload_connections := [(repeat_byte 9, 0)], download_connections := [(repeat_byte 9, 0)],
        ports := [(1, Some (repeat_byte 9))], spawned := [Peer_Loop (repeat_byte 9)]\<rparr>)
     (heard 9 4 1) (repeat_byte 9))\<lparr>parent := repeat_byte 9, sent := x\<rparr>"
    using example_connected_eq by blast
  have "snek_inv (repeat_byte 5) ?r"
    using snek_router.reachable_keeps [OF example_connected_reachable, of "repeat_byte 5"]
    by (auto simp: snek_inv_def new_router_def)
  then have "fst (disconnect_peer example_env (repeat_byte 9) ?r) = Some ()"
    by (rule disconnect_last_peer [where p = 1])
      (simp_all add: eq port_of_def ascends_through_def peers_def hm_entries_def hm_remove_def stored_def new_router_def)
  then have "fst (stop example_env example_connected) = Some ()"
    by (auto simp: stop_def act_defs peers_def [of ?r] peers_def [of example_connected, symmetric]
        split: prod.splits option.splits)
  then show ?thesis
    using stop_disconnects_all [OF example_connected_reachable, of example_env]
    by (cases "stop example_env example_connected") auto
qed

end
