(* ===== verification/Network.thy ===== *)
theory Network
  imports Router
begin

text \<open>
  Many routers at once: a tree packet handed from node to node by \<open>next_tree_hop\<close>, as
  \<open>handle_frame\<close> does. When the announcements the nodes hold agree with the coordinates of
  their peers, every packet reaches the node with its destination coordinates, by a path whose
  length is at most the distance.
\<close>

section \<open>The way of a packet\<close>

type_synonym network = "public_key \<Rightarrow> router_state"

text \<open>
  The node that delivers a packet that node \<open>k\<close> got from \<open>from\<close>; \<open>None\<close> when it is dropped, a
  node panics, or it is still on its way after the given number of hops.
\<close>

fun tree_route :: "network \<Rightarrow> coordinates \<Rightarrow> nat \<Rightarrow> public_key \<Rightarrow> public_key \<Rightarrow> public_key option" where
  "tree_route net dest hops from k =
     (case next_tree_hop (net k) dest from of
        Some (Some p) \<Rightarrow>
          if p = public_key (net k) then Some k
          else (case hops of 0 \<Rightarrow> None | Suc n \<Rightarrow> tree_route net dest n k p)
      | _ \<Rightarrow> None)"

declare tree_route.simps [simp del]

section \<open>Converged networks\<close>

text \<open>Node \<open>k\<close> holds an announcement of its current root from its peer \<open>q\<close>.\<close>

definition announces :: "network \<Rightarrow> public_key \<Rightarrow> public_key \<Rightarrow> tree_announcement \<Rightarrow> bool" where
  "announces net k q a \<longleftrightarrow> q \<in> set (peers (net k)) \<and> tree_announcement_of (net k) q = Some a \<and>
     ann_root a = current_root (net k)"

definition converged :: "network \<Rightarrow> public_key set \<Rightarrow> bool" where
  "converged net N \<longleftrightarrow>
     (\<forall>k \<in> N. public_key (net k) = k \<and> announcements_signed (net k)) \<and>
     (\<forall>k \<in> N. \<forall>q a. announces net k q a \<longrightarrow> q \<in> N \<and> butlast (coords a) = coordinates_of (net q)) \<and>
     (\<forall>k \<in> N. coordinates_of (net k) \<noteq> [] \<longrightarrow>
        (\<exists>p \<in> N. coordinates_of (net p) = butlast (coordinates_of (net k)) \<and>
           (\<exists>a. announces net k p a) \<and> (\<exists>a. announces net p k a))) \<and>
     inj_on (\<lambda>k. coordinates_of (net k)) N"

lemma convergedD:
  assumes "converged net N" and "k \<in> N"
  shows "public_key (net k) = k" and "announcements_signed (net k)"
    and "announces net k q a \<Longrightarrow> q \<in> N" and "announces net k q a \<Longrightarrow> butlast (coords a) = coordinates_of (net q)"
    and "coordinates_of (net k) \<noteq> [] \<Longrightarrow> \<exists>p \<in> N. coordinates_of (net p) = butlast (coordinates_of (net k)) \<and>
           (\<exists>a. announces net k p a) \<and> (\<exists>a. announces net p k a)"
  using assms unfolding converged_def by blast+

text \<open>The ancestors of a node are nodes.\<close>

lemma ancestor_exists:
  assumes "converged net N" and "d \<in> N" and "coordinates_of (net d) = c @ rest"
  shows "\<exists>k \<in> N. coordinates_of (net k) = c"
  using assms(2,3)
proof (induction rest arbitrary: d rule: rev_induct)
  case (snoc x rest)
  then obtain p where "p \<in> N" "coordinates_of (net p) = butlast (coordinates_of (net d))"
    using convergedD(5) [OF assms(1)] by force
  with snoc show ?case by (simp add: butlast_append)
qed auto

text \<open>Every node away from the destination has a neighbour in the tree that is closer.\<close>

lemma closer_neighbour:
  assumes conv: "converged net N" and k: "k \<in> N" and d: "d \<in> N" and away: "k \<noteq> d"
  defines "dest \<equiv> coordinates_of (net d)"
  shows "\<exists>q a. announces net k q a \<and>
    distance_to (butlast (coords a)) dest < distance_to (coordinates_of (net k)) dest"
proof (cases "prefix (coordinates_of (net k)) dest")
  case False
  then have "coordinates_of (net k) \<noteq> []" by auto
  then obtain p a where "coordinates_of (net p) = butlast (coordinates_of (net k))" "announces net k p a"
    using convergedD(5) [OF conv k] by blast
  moreover from this have "butlast (coords a) = coordinates_of (net p)"
    using convergedD(4) [OF conv k] by blast
  moreover have "distance_to (butlast (coordinates_of (net k))) dest + 1 = distance_to (coordinates_of (net k)) dest"
    using \<open>coordinates_of (net k) \<noteq> []\<close> False by (rule distance_to_parent_closer)
  ultimately show ?thesis by (intro exI [of _ p] exI [of _ a]) simp
next
  case True
  then obtain rest where rest: "dest = coordinates_of (net k) @ rest" by (auto simp: prefix_def)
  have "rest \<noteq> []"
    using rest away k d conv by (auto simp: dest_def converged_def inj_on_def)
  then obtain x xs where x: "rest = x # xs" by (cases rest) auto
  let ?child = "coordinates_of (net k) @ [x]"
  obtain q where q: "q \<in> N" "coordinates_of (net q) = ?child"
    using ancestor_exists [OF conv d, of ?child xs] rest x by (auto simp: dest_def)
  then obtain p a where "p \<in> N" "coordinates_of (net p) = coordinates_of (net k)" "announces net p q a"
    using convergedD(5) [OF conv q(1)] by auto
  moreover from this have "p = k"
    using k conv by (auto simp: converged_def inj_on_def)
  ultimately have a: "announces net k q a" by simp
  then have "butlast (coords a) = ?child"
    using convergedD(4) [OF conv k] q(2) by simp
  moreover have "distance_to ?child dest < distance_to (coordinates_of (net k)) dest"
    using distance_to_child_closer [of "coordinates_of (net k)" x xs] rest x by simp
  ultimately show ?thesis using a by (intro exI [of _ q] exI [of _ a]) simp
qed

section \<open>Every packet arrives\<close>

lemma tree_route_from:
  assumes conv: "converged net N" and d: "d \<in> N"
  defines "dest \<equiv> coordinates_of (net d)"
  shows "k \<in> N \<Longrightarrow> distance_to (coordinates_of (net k)) dest \<le> n \<Longrightarrow>
    (from \<in> N \<Longrightarrow> distance_to (coordinates_of (net k)) dest \<le> distance_to (coordinates_of (net from)) dest) \<Longrightarrow>
    tree_route net dest n from k = Some d"
proof (induction n arbitrary: k "from" rule: less_induct)
  case (less n)
  show ?case
  proof (cases "k = d")
    case True
    then show ?thesis
      using convergedD(1) [OF conv d] unfolding dest_def
      by (subst tree_route.simps) (simp add: next_tree_hop_here)
  next
    case False
    then have away: "dest \<noteq> coordinates_of (net k)"
      using conv d less.prems(1) by (auto simp: dest_def converged_def inj_on_def)
    obtain q b where q: "announces net k q b"
      "distance_to (butlast (coords b)) dest < distance_to (coordinates_of (net k)) dest"
      using closer_neighbour [OF conv less.prems(1) d False] by (auto simp: dest_def)
    then have "q \<noteq> from"
      using less.prems(3) convergedD(3,4) [OF conv less.prems(1) q(1)] by auto
    then have eligible: "hop_eligible (net k) from q b"
      using q(1) by (simp add: announces_def hop_eligible_def)
    then obtain p where p: "next_tree_hop (net k) dest from = Some (Some p)" "best_hop (net k) dest from p"
      using next_tree_hop_cases [OF convergedD(2) [OF conv less.prems(1)] away, of "from"] q(2) by force
    then obtain a where a: "announces net k p a"
      "distance_to (butlast (coords a)) dest < distance_to (coordinates_of (net k)) dest"
      by (auto simp: best_hop_def hop_eligible_def announces_def)
    then have pN: "p \<in> N" and closer: "distance_to (coordinates_of (net p)) dest < distance_to (coordinates_of (net k)) dest"
      using convergedD(3,4) [OF conv less.prems(1) a(1)] by auto
    then have "p \<noteq> public_key (net k)"
      using convergedD(1) [OF conv less.prems(1)] by auto
    moreover obtain m where m: "n = Suc m"
      using closer less.prems(2) by (cases n) auto
    moreover have "tree_route net dest m k p = Some d"
      using closer pN less.prems(2) m by (intro less.IH) auto
    ultimately show ?thesis
      using p(1) by (simp add: tree_route.simps [of net dest "Suc m"])
  qed
qed

text \<open>
  C1: tree routing delivers. In a converged network - every node's stored announcements agree
  with its peers' coordinates, tree neighbours have heard each other, and no two nodes share
  coordinates - a packet sent by any node to the coordinates of any other is delivered there
  and nowhere else, within as many hops as the distance: greedy routing neither loops nor gets
  stuck.
\<close>

theorem tree_routing_delivers:
  assumes "converged net N" and "k \<in> N" and "d \<in> N"
    and "distance_to (coordinates_of (net k)) (coordinates_of (net d)) \<le> hops"
  shows "tree_route net (coordinates_of (net d)) hops k k = Some d"
  using tree_route_from [OF assms(1,3,2,4)] by blast

section \<open>Example\<close>

text \<open>The root 9 and its child 5.\<close>

definition heard_child :: tree_announcement where
  "heard_child = (heard 9 4 0)\<lparr>ann_signatures := ann_signatures (heard 9 4 0) @
     [\<lparr>signing_public_key = repeat_byte 5, destination_port = 1, sig_bytes = repeat_byte 0\<rparr>]\<rparr>"

definition example_network :: network where
  "example_network k =
     (if k = repeat_byte 9
      then (new_router example_crypto (repeat_byte 9))\<lparr>ports := [(4, Some (repeat_byte 5))],
        announcements := [(repeat_byte 5, heard_child)]\<rparr>
      else (new_router example_crypto (repeat_byte 5))\<lparr>ports := [(1, Some (repeat_byte 9))],
        announcements := [(repeat_byte 9, heard 9 4 0)], parent := repeat_byte 9\<rparr>)"

lemma heard_child_simps:
  "ann_root heard_child = Root (repeat_byte 9) 0" "coords heard_child = [4, 1]" "ann_signatures heard_child \<noteq> []"
  by (simp_all add: heard_child_def heard_def coords_def)

lemma example_network_simps:
  "public_key (example_network (repeat_byte 9)) = repeat_byte 9"
  "public_key (example_network (repeat_byte 5)) = repeat_byte 5"
  "peers (example_network (repeat_byte 9)) = [repeat_byte 5]"
  "peers (example_network (repeat_byte 5)) = [repeat_byte 9]"
  "tree_announcement_of (example_network (repeat_byte 9)) k = (if k = repeat_byte 5 then Some heard_child else None)"
  "tree_announcement_of (example_network (repeat_byte 5)) k = (if k = repeat_byte 9 then Some (heard 9 4 0) else None)"
  "coordinates_of (example_network (repeat_byte 9)) = []"
  "coordinates_of (example_network (repeat_byte 5)) = [4]"
  "current_root (example_network (repeat_byte 9)) = Root (repeat_byte 9) 0"
  "current_root (example_network (repeat_byte 5)) = Root (repeat_byte 9) 0"
  by (simp_all add: example_network_def new_router_def peers_def hm_entries_def tree_announcement_of_def
      coordinates_of_def current_root_def current_announcement_def)
    (simp add: coords_def)

lemma example_network_converged: "converged example_network {repeat_byte 9, repeat_byte 5}"
  by (auto simp: converged_def announces_def announcements_signed_def example_network_simps heard_child_simps)

theorem tree_routing_delivers_witness:
  "tree_route example_network [4] 1 (repeat_byte 9) (repeat_byte 9) = Some (repeat_byte 5)"
  using tree_routing_delivers [OF example_network_converged, of "repeat_byte 9" "repeat_byte 5" 1]
  by (simp add: example_network_simps distance_to_def get_common_prefix_def)

end
