(* ===== verification/Router_Steps.thy ===== *)
theory Router_Steps
  imports Router
begin

text \<open>
  What single steps of a router may do: a step either hears no frame of a given kind, or it
  handles one such frame and then at most loses the connection the frame came from. With it, the
  table of announcements between the state before and after a step.
\<close>

section \<open>Steps and the frame they hear\<close>

text \<open>What is left to do after a frame: nothing, schedule the next round, or disconnect after an error.\<close>

definition after_frame :: "env \<Rightarrow> public_key \<Rightarrow> (router_error + unit) option \<Rightarrow> router_state \<Rightarrow> router_state \<Rightarrow> bool" where
  "after_frame E q res s r' \<longleftrightarrow>
     r' = s \<or> r' = snd (spawn (Peer_Loop q) s) \<or> (\<exists>e. res = Some (Inl e) \<and> r' = snd (disconnect_peer E q s))"

definition handles :: "env \<Rightarrow> public_key \<Rightarrow> frame \<Rightarrow> router_state \<Rightarrow> router_state \<Rightarrow> bool" where
  "handles E q f r r' \<longleftrightarrow>
     (\<exists>tasks. let run = handle_frame E f q (r\<lparr>spawned := tasks\<rparr>) in after_frame E q (fst run) (snd run) r')"

lemma peer_loop_handles:
  "snd (peer_loop E (Some (Inr f)) q r) = snd (peer_loop E None q r) \<or>
    (let run = handle_frame E f q r in after_frame E q (fst run) (snd run) (snd (peer_loop E (Some (Inr f)) q r)))"
  by (auto simp: peer_loop_def poll_peer_def after_frame_def act_get_def act_bind_def act_ret_def
      split: option.split sum.split prod.split)

lemma take_task_handles:
  "snd (take_task E (Some (Inr f)) (Peer_Loop q) r) = snd (take_task E None (Peer_Loop q) r) \<or>
    handles E q f r (snd (take_task E (Some (Inr f)) (Peer_Loop q) r))"
  using peer_loop_handles [of E f q "r\<lparr>spawned := remove1 (Peer_Loop q) (spawned r)\<rparr>"]
  by (simp add: take_task_def handles_def act_seq_def act_bind_def act_modify_def) blast

lemma local_frame_handles: "snd (local_frame E f r) = r \<or> handles E (public_key r) f r (snd (local_frame E f r))"
proof -
  have "r\<lparr>spawned := spawned r\<rparr> = r"
    by simp
  then show ?thesis
    unfolding local_frame_def handles_def after_frame_def Let_def
    by (auto simp: act_get_def act_ret_def case_prod_unfold intro!: exI [of _ "spawned r"])
qed

text \<open>
  A step hears no frame of the kind \<open>X\<close>, or does nothing, or handles such a frame, or it accepts a
  new connection with one, which only an announcement can be.
\<close>

lemma heard_step_split:
  assumes "heard_step C W r r'"
  obtains "heard_step C (\<lambda>q f. W q f \<and> \<not> X f) r r'"
    | "r' = r"
    | E q f where "env_crypto E = C" "W q f" "X f" "handles E q f r r'"
    | E u d a where "env_crypto E = C" "ann_signatures a \<noteq> []"
        "W (signing_public_key (last (ann_signatures a))) (TreeAnnouncement a)"
        "r' = snd (connect E u d (Some (Inr (TreeAnnouncement a))) r)"
  using assms
proof cases
  case (heard_connect E first u d)
  show ?thesis
  proof (cases "\<exists>a. first = Some (Inr (TreeAnnouncement a)) \<and> ann_signatures a \<noteq> []")
    case True
    then show ?thesis
      using heard_connect that(4) by (auto simp: heard_first_def)
  next
    case False
    then have "heard_first (\<lambda>q f. W q f \<and> \<not> X f) first"
      using heard_connect by (auto simp: heard_first_def)
    then show ?thesis
      using heard_connect that(1) heard_step.heard_connect by blast
  qed
next
  case (heard_local E f)
  then show ?thesis
    using local_frame_handles [of E f r] that heard_step.heard_local [of E C "\<lambda>q f. W q f \<and> \<not> X f" r f] by blast
next
  case (heard_run E item t)
  let ?W = "\<lambda>q f. W q f \<and> \<not> X f"
  show ?thesis
  proof (cases "heard_task ?W item t")
    case True
    then show ?thesis
      using heard_run that(1) heard_step.heard_run by blast
  next
    case False
    then obtain q f where t: "t = Peer_Loop q" "item = Some (Inr f)" "W q f" "X f"
      using heard_run by (auto simp: heard_defs)
    have "heard_task ?W None t"
      by (simp add: heard_defs)
    then have "heard_step C ?W r (snd (take_task E None t r))"
      using heard_run by (intro heard_step.heard_run)
    then show ?thesis
      using heard_run t take_task_handles [of E f q r] that by auto
  qed
next
  case heard_start
  then show ?thesis
    using that(1) heard_step.heard_start by simp
next
  case (heard_stop E)
  then show ?thesis
    using that(1) heard_step.heard_stop by simp
next
  case (heard_disconnect E peer)
  then show ?thesis
    using that(1) heard_step.heard_disconnect by simp
next
  case (heard_tree E)
  then show ?thesis
    using that(1) heard_step.heard_tree by simp
next
  case (heard_snek E)
  then show ?thesis
    using that(1) heard_step.heard_snek by simp
qed

section \<open>The table of announcements\<close>

text \<open>A step that hears no announcement only removes some.\<close>

definition announced_within :: "(public_key, tree_announcement) hash_map \<Rightarrow> router_state \<Rightarrow> bool" where
  "announced_within m r \<longleftrightarrow> hm_get (announcements r) \<subseteq>\<^sub>m hm_get m"

lemma announced_within_remove:
  "announced_within m r \<Longrightarrow> announced_within m (r\<lparr>announcements := hm_remove k (announcements r)\<rparr>)"
  by (auto simp: announced_within_def map_le_def split: if_splits)

interpretation within_tree: parent_insensitive "announced_within m" for m
  by unfold_locales (simp_all add: announced_within_def)

interpretation within_paths: snek_insensitive "announced_within m" for m
  by unfold_locales (simp add: announced_within_def)

lemma within_maintain_tree: "preserves (announced_within m) (maintain_tree E)"
  unfolding maintain_tree_def new_tree_announcement_def next_sequence_def
  by (intro preserve preserves_modify) (simp add: announced_within_def)

interpretation within_router: router_contract "announced_within m" C "\<lambda>q f. W q f \<and> \<not> is_announcement f" for m C W
proof unfold_locales
  show "preserves (announced_within m) (parent_selection E)" "preserves (announced_within m) (maintain_tree E)" for E
    by (rule within_tree.preserves_parent_selection within_maintain_tree)+
  show "preserves (announced_within m) (set_reparent_timer now)" for now
    unfolding set_reparent_timer_def by (intro preserves_modify) (simp add: announced_within_def)
  show "preserves (announced_within m) (act_get (\<lambda>r. send_tree_announcement E k (current_announcement (env_now E) r)))" for E k
    by (intro preserve)
  show "preserves (announced_within m) (teardown_path from key path_id)" for "from" key path_id
    by (rule within_paths.preserves_teardown_path)
  show "preserves (announced_within m) (handle_bootstrap_ack E ack)" for E ack
    by (rule within_paths.preserves_handle_bootstrap_ack)
  show "preserves (announced_within m) (handle_setup E from rx next_hop)" for E "from" rx next_hop
    by (rule within_paths.preserves_handle_setup)
  show "preserves (announced_within m) (handle_setup_ack E from rx)" for E "from" rx
    by (rule within_paths.preserves_handle_setup_ack)
  show "announced_within m (r\<lparr>announcements := hm_remove peer (announcements r),
      upload_connections := u, download_connections := d\<rparr>)" if "announced_within m r" for r peer u d
    using announced_within_remove [OF that, of peer] by (simp add: announced_within_def)
qed (simp_all add: announced_within_def)

lemma handle_announcement_table:
  "announcements (snd (handle_frame E (TreeAnnouncement a) q r)) = announcements r \<or>
   is_clean (env_crypto E) a q = Some True \<and> \<not> replayed r a q \<and>
     announcements (snd (handle_frame E (TreeAnnouncement a) q r)) = hm_insert q (stamped E r a) (announcements r)"
  using handle_tree_announcement_table [of E a q r]
  by (auto simp: done_ok_def act_seq_def act_bind_def act_ret_def split: prod.split option.split)

lemma handled_announcement_returns: "fst (handle_frame E (TreeAnnouncement a) q r) \<noteq> Some (Inl e)"
  by (auto simp: done_ok_def act_seq_def act_bind_def act_ret_def split: prod.split option.split)

lemma add_peer_table: "announcements (snd (add_peer E key p u d False r)) = announcements r"
  by (simp add: add_peer_def spawn_peer_def spawn_def act_defs)

lemma add_peer_returns: "fst (add_peer E key p u d False r) = Some ()"
  by (simp add: add_peer_def spawn_peer_def spawn_def act_defs)

text \<open>What a step stores is what it heard, and it was neither unclean nor a replay.\<close>

definition stores :: "crypto \<Rightarrow> public_key \<Rightarrow> tree_announcement \<Rightarrow> router_state \<Rightarrow> router_state \<Rightarrow> bool" where
  "stores C q a r r' \<longleftrightarrow> announcements r' = announcements r \<or>
     is_clean C a q = Some True \<and> \<not> replayed r a q \<and>
       (\<exists>t n. announcements r' = hm_insert q (a\<lparr>ann_receive_time := t, ann_receive_order := n\<rparr>) (announcements r))"

lemma handle_frame_stores:
  "announcements s = announcements r \<Longrightarrow>
    stores (env_crypto E) q a r (snd (handle_frame E (TreeAnnouncement a) q s))"
  using handle_announcement_table [of E a q s]
  by (auto simp: stores_def stamped_def replayed_def tree_announcement_of_def)

lemma handles_stores: "handles E q (TreeAnnouncement a) r r' \<Longrightarrow> stores (env_crypto E) q a r r'"
proof -
  assume "handles E q (TreeAnnouncement a) r r'"
  then obtain tasks where "r' = snd (handle_frame E (TreeAnnouncement a) q (r\<lparr>spawned := tasks\<rparr>)) \<or>
      r' = snd (spawn (Peer_Loop q) (snd (handle_frame E (TreeAnnouncement a) q (r\<lparr>spawned := tasks\<rparr>))))"
    unfolding handles_def after_frame_def Let_def using handled_announcement_returns by blast
  then have "announcements r' = announcements (snd (handle_frame E (TreeAnnouncement a) q (r\<lparr>spawned := tasks\<rparr>)))"
    by (elim disjE) (simp_all add: spawn_def act_modify_def del: handle_frame.simps)
  moreover have "stores (env_crypto E) q a r (snd (handle_frame E (TreeAnnouncement a) q (r\<lparr>spawned := tasks\<rparr>)))"
    by (rule handle_frame_stores) simp
  ultimately show ?thesis
    by (simp only: stores_def)
qed

lemma connect_stores:
  assumes "ann_signatures a \<noteq> []"
  shows "stores (env_crypto E) (signing_public_key (last (ann_signatures a))) a r
    (snd (connect E u d (Some (Inr (TreeAnnouncement a))) r))"
proof (cases "new_port_from (ports r) 1")
  case None
  then show ?thesis
    by (simp add: connect_def get_new_port_def act_defs stores_def)
next
  case (Some p)
  let ?key = "signing_public_key (last (ann_signatures a))"
  let ?r1 = "r\<lparr>ports := hm_insert p None (ports r)\<rparr>"
  let ?r2 = "snd (add_peer E ?key p u d False (?r1\<lparr>ports := hm_insert p (Some ?key) (ports ?r1)\<rparr>))"
  have run: "connect E u d (Some (Inr (TreeAnnouncement a))) r = greet_peer E p u d (Some (Inr (TreeAnnouncement a))) ?r1"
    by (simp add: connect_def act_bind_def get_new_port_run [OF Some])
  have "snd (accept_peer E p u d a ?r1) = snd (handle_frame E (TreeAnnouncement a) ?key ?r2)"
    using assms add_peer_returns [of E ?key p u d "?r1\<lparr>ports := hm_insert p (Some ?key) (ports ?r1)\<rparr>"]
    by (auto simp: accept_peer_def act_seq_def act_bind_def act_modify_def act_ret_def Let_def
        simp del: handle_frame.simps split: prod.split option.split)
  moreover have "announcements ?r2 = announcements r"
    by (simp add: add_peer_table)
  ultimately have "stores (env_crypto E) ?key a r (snd (accept_peer E p u d a ?r1))"
    using handle_frame_stores by metis
  then show ?thesis
    unfolding run greet_peer_def
    by (simp add: act_get_def act_ret_def Let_def stores_def split: option.split)
qed

lemma stores_monotone:
  assumes "stores C q a r r'" and "tree_announcement_of r' k = Some b"
  shows "tree_announcement_of r k = Some b \<or>
    k = q \<and> ann_root b = ann_root a \<and> ann_signatures b = ann_signatures a \<and> is_clean C a k = Some True \<and>
    (\<forall>old. tree_announcement_of r k = Some old \<longrightarrow> root_public_key (ann_root old) = root_public_key (ann_root b) \<longrightarrow>
      root_sequence_number (ann_root old) \<le> root_sequence_number (ann_root b))"
  using assms
  by (auto simp: stores_def tree_announcement_of_def replayed_def has_same_root_key_def replayed_old_sequence_def
      not_less split: if_splits option.splits)

text \<open>
  C37: stored announcements only get newer. Whatever a router does in one step, an announcement
  that is stored for a peer after it was stored for that peer before, or the step heard it from
  that peer, it passed the integrity check, and if it is for the same root as the one stored
  before, its sequence number is at least that of the one before. Over several steps the number
  can fall: when the peer was disconnected, or announced another root, in between.
\<close>

theorem announcement_sequence_monotone:
  assumes "heard_step C W r r'" and "tree_announcement_of r' k = Some b"
  shows "tree_announcement_of r k = Some b \<or>
    (\<exists>a. W k (TreeAnnouncement a) \<and> ann_root b = ann_root a \<and> ann_signatures b = ann_signatures a \<and>
      is_clean C a k = Some True) \<and>
    (\<forall>old. tree_announcement_of r k = Some old \<longrightarrow> root_public_key (ann_root old) = root_public_key (ann_root b) \<longrightarrow>
      root_sequence_number (ann_root old) \<le> root_sequence_number (ann_root b))"
  using assms(1)
proof (cases rule: heard_step_split [where X = is_announcement])
  case 1
  then have "announced_within (announcements r) r'"
    by (rule within_router.step_keeps) (simp add: announced_within_def)
  then show ?thesis
    using assms(2) by (auto simp: announced_within_def tree_announcement_of_def map_le_def dom_def)
next
  case 2
  with assms(2) show ?thesis by simp
next
  case (3 E q f)
  then obtain a where a: "f = TreeAnnouncement a"
    by (cases f) auto
  show ?thesis
    using stores_monotone [OF handles_stores assms(2)] 3 unfolding a by blast
next
  case (4 E u d a)
  then show ?thesis
    using stores_monotone [OF connect_stores [of a E r u d, folded 4(4)] assms(2)] by blast
qed

section \<open>Example\<close>

text \<open>The example router connects to the node with key 9.\<close>

theorem announcement_sequence_monotone_witness:
  "\<exists>b. tree_announcement_of example_connected (repeat_byte 9) = Some b \<and>
    ann_root b = Root (repeat_byte 9) 1 \<and> is_clean example_crypto (heard 9 4 1) (repeat_byte 9) = Some True"
proof -
  let ?W = "\<lambda>q f. f = TreeAnnouncement (heard 9 4 1)"
  have step: "heard_step example_crypto ?W example_started example_connected"
    unfolding example_connected_def by (rule heard_connect) (simp_all add: heard_first_def)
  obtain x where eq: "example_connected = (stored example_env
     ((new_router example_crypto (repeat_byte 5))\<lparr>running := True,
        upload_connections := [(repeat_byte 9, 0)], download_connections := [(repeat_byte 9, 0)],
        ports := [(1, Some (repeat_byte 9))], spawned := [Peer_Loop (repeat_byte 9)]\<rparr>)
     (heard 9 4 1) (repeat_byte 9))\<lparr>parent := repeat_byte 9, sent := x\<rparr>"
    using example_connected_eq by blast
  have "hm_get (announcements example_connected) (repeat_byte 9) \<noteq> None"
    by (simp add: eq stored_def)
  then obtain b where b: "tree_announcement_of example_connected (repeat_byte 9) = Some b"
    by (auto simp: tree_announcement_of_def)
  moreover have "tree_announcement_of example_started (repeat_byte 9) = None"
    by (simp add: tree_announcement_of_def example_started_def start_def act_modify_def new_router_def)
  ultimately show ?thesis
    using announcement_sequence_monotone [OF step b] by simp
qed

end
