(* ===== verification/Snek_Links.thy ===== *)
theory Snek_Links
  imports Router_Steps
begin

text \<open>
  What the virtual snake promises, as a small state machine of one node's links: to its next
  higher neighbour, to the one it is setting up, and to its next lower neighbour. The machine
  knows nothing of ports, tables and tasks. Its events are labelled with the frame they answer;
  a step of the router is one of them, or it only loses links.
\<close>

section \<open>The links of a node\<close>

text \<open>A link: the neighbour's key, the path id and when it was set up.\<close>

datatype link = Link (link_key: public_key) (link_id: snek_path_id) (link_since: system_time)

record links =
  above :: "link option"
  pending :: "link option"
  below :: "link option"

definition no_links :: links where
  "no_links = \<lparr>above = None, pending = None, below = None\<rparr>"

definition outlived :: "link \<Rightarrow> link \<Rightarrow> bool" where
  "outlived new old \<longleftrightarrow> link_since old + SNEK_EXPIRY_PERIOD \<le> link_since new"

definition renewed :: "link \<Rightarrow> link \<Rightarrow> bool" where
  "renewed new old \<longleftrightarrow> link_key new = link_key old \<and> link_id new \<noteq> link_id old"

text \<open>
  A new link above replaces one that has expired by then, goes to the same neighbour by a new
  path, or goes to a lower key; below likewise, to a higher key.
\<close>

definition improves_above :: "link \<Rightarrow> link option \<Rightarrow> bool" where
  "improves_above new old \<longleftrightarrow>
     pred_option (\<lambda>a. outlived new a \<or> renewed new a \<or> link_key new < link_key a) old"

definition improves_below :: "link \<Rightarrow> link option \<Rightarrow> bool" where
  "improves_below new old \<longleftrightarrow>
     pred_option (\<lambda>b. outlived new b \<or> renewed new b \<or> link_key b < link_key new) old"

text \<open>
  A link is gained by one of three events, each the answer to a frame: the ACK of a bootstrap
  makes this node ask its sender for a link above; the ACK of a setup confirms the link asked
  for; a setup for this node is accepted as a link below.
\<close>

inductive link_event :: "public_key \<Rightarrow> frame \<Rightarrow> links \<Rightarrow> links \<Rightarrow> bool" for own where
  request: "link_key l = ba_source_key a \<Longrightarrow> link_id l = ba_path_id a \<Longrightarrow> own < link_key l \<Longrightarrow>
    improves_above l (above s) \<Longrightarrow> link_event own (SnekBootstrapACK a) s (s\<lparr>pending := Some l\<rparr>)"
| confirm: "pending s = Some l \<Longrightarrow> sa_destination_key t = own \<Longrightarrow> sa_path_id t = link_id l \<Longrightarrow>
    link_event own (SnekSetupACK t) s (s\<lparr>above := Some l, pending := None\<rparr>)"
| accept: "link_key l = su_source_key u \<Longrightarrow> link_id l = su_path_id u \<Longrightarrow> su_destination_key u = own \<Longrightarrow>
    link_key l < own \<Longrightarrow> improves_below l (below s) \<Longrightarrow>
    link_event own (SnekSetup u) s (s\<lparr>below := Some l\<rparr>)"

text \<open>Links are also lost, by a teardown or with a connection.\<close>

definition loses :: "links \<Rightarrow> links \<Rightarrow> bool" where
  "loses s s' \<longleftrightarrow> (above s' = above s \<or> above s' = None) \<and> pending s' = pending s \<and>
     (below s' = below s \<or> below s' = None)"

lemma loses_refl [simp]: "loses s s"
  by (simp add: loses_def)

text \<open>What the machine keeps: links lead the right way, and a pending one is an improvement.\<close>

definition links_ok :: "public_key \<Rightarrow> links \<Rightarrow> bool" where
  "links_ok own s \<longleftrightarrow>
     pred_option (\<lambda>l. own < link_key l) (above s) \<and>
     pred_option (\<lambda>l. own < link_key l \<and> improves_above l (above s)) (pending s) \<and>
     pred_option (\<lambda>l. link_key l < own) (below s)"

lemma links_ok_start: "links_ok own no_links"
  by (simp add: links_ok_def no_links_def)

lemma links_ok_event: "link_event own f s s' \<Longrightarrow> links_ok own s \<Longrightarrow> links_ok own s'"
  by (induction rule: link_event.induct) (auto simp: links_ok_def improves_above_def elim: option.pred_mono_strong)

lemma links_ok_loses: "loses s s' \<Longrightarrow> links_ok own s \<Longrightarrow> links_ok own s'"
  by (auto simp: links_ok_def loses_def improves_above_def elim: option.pred_mono_strong)

section \<open>The links of a router\<close>

definition link_of :: "snek_path \<Rightarrow> link" where
  "link_of e = Link (path_origin e) (pi_path_id (path_index e)) (path_last_seen e)"

definition links_of :: "router_state \<Rightarrow> links" where
  "links_of r =
     \<lparr>above = map_option link_of (ascending_path r), pending = map_option link_of (candidate r),
      below = map_option link_of (descending_path r)\<rparr>"

lemma link_of_sel [simp]:
  "link_key (link_of e) = path_origin e" "link_id (link_of e) = pi_path_id (path_index e)"
  "link_since (link_of e) = path_last_seen e"
  by (simp_all add: link_of_def)

lemma link_of_active [simp]: "link_of (e\<lparr>path_active := b\<rparr>) = link_of e"
  by (simp add: link_of_def)

lemma links_of_sel [simp]:
  "above (links_of r) = map_option link_of (ascending_path r)"
  "pending (links_of r) = map_option link_of (candidate r)"
  "below (links_of r) = map_option link_of (descending_path r)"
  by (simp_all add: links_of_def)

lemma links_of_cong:
  "ascending_path r' = ascending_path r \<Longrightarrow> candidate r' = candidate r \<Longrightarrow>
    descending_path r' = descending_path r \<Longrightarrow> links_of r' = links_of r"
  by (simp add: links_of_def)

lemma links_of_update:
  "links_of (r\<lparr>ascending_path := a\<rparr>) = (links_of r)\<lparr>above := map_option link_of a\<rparr>"
  "links_of (r\<lparr>candidate := c\<rparr>) = (links_of r)\<lparr>pending := map_option link_of c\<rparr>"
  "links_of (r\<lparr>descending_path := d\<rparr>) = (links_of r)\<lparr>below := map_option link_of d\<rparr>"
  by (simp_all add: links_of_def)

lemma links_of_neutral [simp]:
  "links_of (r\<lparr>paths := ps\<rparr>) = links_of r" "links_of (r\<lparr>sent := x\<rparr>) = links_of r"
  "links_of (r\<lparr>spawned := z\<rparr>) = links_of r"
  by (simp_all add: links_of_def)

text \<open>A router drops a link only together with the entry of its path.\<close>

definition drops :: "public_key \<Rightarrow> links \<Rightarrow> router_state \<Rightarrow> bool" where
  "drops own s r \<longleftrightarrow> loses s (links_of r) \<and>
     (\<forall>l. above s = Some l \<longrightarrow> above (links_of r) = None \<longrightarrow>
        hm_get (paths r) (Snek_Path_Index own (link_id l)) = None) \<and>
     (\<forall>l. below s = Some l \<longrightarrow> below (links_of r) = None \<longrightarrow>
        hm_get (paths r) (Snek_Path_Index (link_key l) (link_id l)) = None)"

lemma drops_same: "links_of r = s \<Longrightarrow> drops own s r"
  by (auto simp: drops_def)

lemma drops_loses: "drops own s r \<Longrightarrow> loses s (links_of r)"
  by (simp add: drops_def)

section \<open>The four operations that touch the links\<close>

lemma snek_inv_index:
  assumes "snek_inv own r"
  shows "ascending_path r = Some a \<Longrightarrow> Snek_Path_Index own (link_id (link_of a)) = path_index a"
    and "descending_path r = Some d \<Longrightarrow> Snek_Path_Index (link_key (link_of d)) (link_id (link_of d)) = path_index d"
  using assms by (cases "path_index a"; cases "path_index d"; simp add: snek_inv_def up_path_def down_path_def)+

lemma teardown_path_drops:
  assumes "snek_inv own r" and "drops own s r"
  shows "drops own s (snd (teardown_path from key path_id r))"
proof -
  let ?i = "Snek_Path_Index key path_id"
  have up: "path_index (the (ascending_path r)) = ?i \<and> ascending_path r \<noteq> None"
    if "teardown_hits from key path_id (ascending_path r)"
    using that by (cases "ascending_path r") (auto simp: teardown_hits_def index_matches_iff)
  have down: "path_index (the (descending_path r)) = ?i \<and> descending_path r \<noteq> None"
    if "teardown_hits from key path_id (descending_path r)"
    using that by (cases "descending_path r") (auto simp: teardown_hits_def index_matches_iff)
  show ?thesis
    using assms(2) up down snek_inv_index [OF assms(1)]
    unfolding teardown_path_run [OF snek_inv_wf [OF assms(1)]] Let_def
    by (auto simp: drops_def loses_def split: option.split)
qed

text \<open>The others leave the links alone or are the event of their frame.\<close>

definition event_or_same :: "public_key \<Rightarrow> frame \<Rightarrow> router_state \<Rightarrow> router_state \<Rightarrow> bool" where
  "event_or_same own f r r' \<longleftrightarrow> links_of r' = links_of r \<or> link_event own f (links_of r) (links_of r')"

lemma bootstrap_ack_update_improves:
  assumes "bootstrap_ack_update now r ack = Some True"
  shows "public_key r < ba_source_key ack \<or> ascending_path r \<noteq> None"
    and "improves_above (Link (ba_source_key ack) (ba_path_id ack) now) (above (links_of r))"
  using assms
  by (auto simp: bootstrap_ack_update_def improves_above_def outlived_def renewed_def dht_ordered_def
      snek_path_valid_Some_iff split: if_splits option.splits Option.bind_splits)

lemma handle_bootstrap_ack_links:
  assumes inv: "snek_inv own r"
  shows "event_or_same own (SnekBootstrapACK ack) r (snd (handle_bootstrap_ack E ack r))"
proof (cases "bootstrap_ack_update (env_now E) r ack = Some True")
  case False
  then have "snd (handle_bootstrap_ack E ack r) = r"
    by (auto simp: handle_bootstrap_ack_def act_defs split: option.split)
  then show ?thesis by (simp add: event_or_same_def)
next
  case update: True
  let ?hop = "next_tree_hop r (ba_source_coordinates ack) (public_key r)"
  show ?thesis
  proof (cases "\<exists>p port. ?hop = Some (Some p) \<and> p \<noteq> public_key r \<and> port_of r p = Some port")
    case True
    then obtain p port where "?hop = Some (Some p)" "p \<noteq> public_key r" "port_of r p = Some port"
      by blast
    then have "links_of (snd (handle_bootstrap_ack E ack r)) =
        (links_of r)\<lparr>pending := Some (Link (ba_source_key ack) (ba_path_id ack) (env_now E))\<rparr>"
      by (simp add: handle_bootstrap_ack_run [OF update] links_of_def own_entry_def link_of_def)
    moreover have "own < ba_source_key ack"
      using update inv by (rule bootstrap_ack_update_higher)
    ultimately show ?thesis
      using bootstrap_ack_update_improves(2) [OF update]
      by (simp add: event_or_same_def link_event.request)
  next
    case False
    then have "links_of (snd (handle_bootstrap_ack E ack r)) = links_of r"
      using update
      by (auto simp: handle_bootstrap_ack_def act_defs Let_def send_logged_run [unfolded act_defs]
          split: option.split)
    then show ?thesis by (simp add: event_or_same_def)
  qed
qed

lemma handle_setup_ack_links:
  assumes inv: "snek_inv own r"
  shows "event_or_same own (SnekSetupACK rx) r (snd (handle_setup_ack E from rx r))"
proof -
  let ?i = "Snek_Path_Index (sa_destination_key rx) (sa_path_id rx)"
  have "event_or_same own (SnekSetupACK rx) r (snd (activate_entry E from rx ?i e r))"
    if "hm_get (paths r) ?i = Some e" for e
  proof -
    have confirm: "link_event own (SnekSetupACK rx) (links_of r) ((links_of r)\<lparr>above := Some (link_of e), pending := None\<rparr>)"
      if "candidate r = Some (e\<lparr>path_active := True\<rparr>)"
    proof (rule link_event.confirm)
      have "path_index e = ?i" "pi_public_key (path_index e) = own"
        using inv that \<open>hm_get (paths r) ?i = Some e\<close> by (auto simp: snek_inv_def paths_indexed_def up_path_def)
      then show "sa_destination_key rx = own" "sa_path_id rx = link_id (link_of e)"
        by simp_all
    qed (use that in simp)
    then show ?thesis
      by (auto simp: event_or_same_def activate_entry_def act_defs Let_def send_logged_run [unfolded act_defs]
          links_of_update split: option.split)
  qed
  then show ?thesis
    using inv by (auto simp: handle_setup_ack_run snek_inv_def Let_def event_or_same_def split: option.split)
qed

lemma rejected_links:
  "links_of (snd (send_teardown_for_rejected_path E key path_id via r)) = links_of r"
  by (cases "get_peer_on_port r via")
    (simp_all add: rejected_run, simp add: send_teardown_for_rejected_path_def act_defs)

lemma setup_update_improves:
  assumes "setup_update now r rx = Some True" and "snek_inv own r"
  shows "su_source_key rx < own"
    and "improves_below (Link (su_source_key rx) (su_path_id rx) now) (below (links_of r))"
  using assms
  by (auto simp: setup_update_def improves_below_def outlived_def renewed_def dht_ordered_def snek_inv_def
      down_path_def snek_path_valid_Some_iff split: if_splits option.splits Option.bind_splits)

lemma setup_at_destination_links:
  assumes inv: "snek_inv own r" and dest: "su_destination_key rx = own"
  shows "event_or_same own (SnekSetup rx) r (snd (handle_setup_at_destination E from rx r))"
proof (cases "setup_update (env_now E) r rx = Some True")
  case False
  then have "links_of (snd (handle_setup_at_destination E from rx r)) = links_of r"
    using rejected_links
    by (auto simp: handle_setup_at_destination_def act_get_def act_unwrap_def act_panic_def split: option.split)
  then show ?thesis by (simp add: event_or_same_def)
next
  case True
  let ?l = "Link (su_source_key rx) (su_path_id rx) (env_now E)"
  have "links_of (snd (handle_setup_at_destination E from rx r)) = (links_of r)\<lparr>below := Some ?l\<rparr>"
    using True
    by (auto simp: handle_setup_at_destination_def act_defs Let_def send_teardown_for_existing_path_def spawn_def
        send_logged_run [unfolded act_defs] links_of_update link_of_def split: option.split)
  then show ?thesis
    using setup_update_improves [OF True inv] dest by (simp add: event_or_same_def link_event.accept)
qed

lemma setup_in_between_links:
  "links_of (snd (handle_setup_in_between E from rx next_hop r)) = links_of r"
  by (auto simp: handle_setup_in_between_def act_get_def act_unwrap_def act_panic_def act_seq_def act_bind_def
      act_modify_def Let_def rejected_links send_logged_run split: option.split)

lemma handle_setup_links:
  assumes inv: "snek_inv own r"
  shows "event_or_same own (SnekSetup rx) r (snd (handle_setup E from rx next_hop r))"
proof -
  let ?reject = "send_teardown_for_rejected_path E (su_source_key rx) (su_path_id rx) from"
  let ?first = "act_when (current_root r \<noteq> su_root rx) ?reject"
  let ?rest = "if hm_contains_key (paths r) (Snek_Path_Index (su_source_key rx) (su_path_id rx)) then
      act_seq (send_teardown_for_existing_path 0 (su_source_key rx) (su_path_id rx)) ?reject
    else if su_destination_key rx = public_key r then handle_setup_at_destination E from rx
    else handle_setup_in_between E from rx next_hop"
  have first: "links_of (snd (?first r)) = links_of r"
    by (simp add: act_when_def act_ret_def rejected_links)
  have first_inv: "snek_inv own (snd (?first r))"
    using inv preservesD [OF snek.preserves_send_teardown_rejected inv] by (simp add: act_when_def act_ret_def)
  have rest: "event_or_same own (SnekSetup rx) s (snd (?rest s))" if "snek_inv own s" for s
    using that inv setup_at_destination_links [of own s rx E "from"]
    by (simp add: event_or_same_def setup_in_between_links act_seq_def act_bind_def send_teardown_for_existing_path_def
        spawn_run rejected_links snek_inv_def)
  have "handle_setup E from rx next_hop r = act_seq ?first ?rest r"
    by (simp add: handle_setup_def act_get_def)
  then show ?thesis
    using first rest [OF first_inv]
    by (cases "?first r") (auto simp: event_or_same_def act_seq_def act_bind_def split: option.split)
qed

section \<open>Steps and events\<close>

text \<open>The frames that can change links other than by losing them.\<close>

definition handshake :: "frame \<Rightarrow> bool" where
  "handshake f \<longleftrightarrow> (case f of SnekBootstrapACK a \<Rightarrow> True | SnekSetup u \<Rightarrow> True | SnekSetupACK t \<Rightarrow> True | _ \<Rightarrow> False)"

lemma same_links: "links_of r' = links_of r \<Longrightarrow> event_or_same own f r r'"
  by (simp add: event_or_same_def)

lemma send_links: "links_of (snd (send E f to r)) = links_of r"
  by (auto simp: send_def send_to_local_def act_defs split: option.split frame.split)

lemma done_ok_run:
  "snd (done_ok m r) = snd (m r)" "fst (done_ok m r) \<noteq> Some (Inl e)"
  by (auto simp: done_ok_def act_seq_def act_bind_def act_ret_def split: prod.split option.split)

text \<open>A handler that changes the links returns no error, so the connection stays.\<close>

lemma handle_frame_links:
  assumes inv: "snek_inv own r" and f: "handshake f"
  shows "event_or_same own f r (snd (handle_frame E f q r)) \<and>
    (fst (handle_frame E f q r) = Some (Inl e) \<longrightarrow> links_of (snd (handle_frame E f q r)) = links_of r)"
  using f
  by (cases f)
    (auto simp: handshake_def forward_tree_def act_get_def act_unwrap_def act_panic_def act_ret_def done_ok_run
      send_links same_links handle_bootstrap_ack_links [OF inv] handle_setup_links [OF inv] handle_setup_ack_links [OF inv]
      split: option.split)

text \<open>Losing links is all that happens in the steps that hear no such frame.\<close>

definition lost_from :: "public_key \<Rightarrow> links \<Rightarrow> router_state \<Rightarrow> bool" where
  "lost_from own s r \<longleftrightarrow> snek_inv own r \<and> drops own s r"

interpretation lost_tree: tree_invariant "lost_from own s" C for own s C
  by unfold_locales (auto simp: lost_from_def drops_def snek_inv_def links_of_def)

lemma lost_teardown: "preserves (lost_from own s) (teardown_path from key path_id)"
proof (rule preservesI)
  fix r assume r: "lost_from own s r"
  then have "snek_inv own (snd (teardown_path from key path_id r))"
    using preservesD [OF teardown_path_inv] by (simp add: lost_from_def)
  then show "lost_from own s (snd (teardown_path from key path_id r))"
    using r teardown_path_drops by (simp add: lost_from_def)
qed

interpretation lost_router: frame_contract "lost_from own s" "\<lambda>f. True" C "\<lambda>q f. W q f \<and> \<not> handshake f"
  for own s C W
proof unfold_locales
  show "preserves (lost_from own s) (handle_tree_announcement E a k)" if "env_crypto E = C" for E a k
    using that by (rule lost_tree.preserves_handle_tree_announcement)
  show "preserves (lost_from own s) (parent_selection E)" "preserves (lost_from own s) (maintain_tree E)" for E
    by (rule lost_tree.preserves_parent_selection lost_tree.preserves_maintain_tree)+
  show "preserves (lost_from own s) (set_reparent_timer now)" for now
    by (rule lost_tree.preserves_set_reparent_timer)
  show "preserves (lost_from own s) (act_get (\<lambda>r. send_tree_announcement E k (current_announcement (env_now E) r)))" for E k
    by (intro preserve)
  show "preserves (lost_from own s) (teardown_path from key path_id)" for "from" key path_id
    by (rule lost_teardown)
  show "preserves (lost_from own s) (bootstrap_now E)" for E
    by (rule lost_tree.preserves_bootstrap_now)
  show "preserves (lost_from own s) (handle_bootstrap E b)" for E b
    by (rule lost_tree.preserves_handle_bootstrap)
qed (auto simp: lost_from_def drops_def snek_inv_def links_of_def handshake_def)

lemma heard_step_links:
  assumes inv: "snek_inv own r" and step: "heard_step C W r r'"
  shows "drops own (links_of r) r' \<or> (\<exists>q f. W q f \<and> link_event own f (links_of r) (links_of r'))"
proof -
  have start: "lost_from own (links_of r) r"
    using inv by (simp add: lost_from_def drops_same)
  show ?thesis
    using step
  proof (cases rule: heard_step_split [where X = handshake])
    case 1
    then have "lost_from own (links_of r) r'"
      using start by (rule lost_router.step_keeps)
    then show ?thesis by (simp add: lost_from_def)
  next
    case 2
    then show ?thesis by (simp add: drops_same)
  next
    case (3 E q f)
    then obtain tasks where after: "let run = handle_frame E f q (r\<lparr>spawned := tasks\<rparr>) in
        after_frame E q (fst run) (snd run) r'"
      unfolding handles_def by blast
    let ?r = "r\<lparr>spawned := tasks\<rparr>" and ?s = "snd (handle_frame E f q (r\<lparr>spawned := tasks\<rparr>))"
    have r: "snek_inv own ?r" "links_of ?r = links_of r"
      using inv by (simp_all add: snek_inv_def)
    have s: "event_or_same own f ?r ?s" "fst (handle_frame E f q ?r) = Some (Inl e) \<Longrightarrow> links_of ?s = links_of r" for e
      using handle_frame_links [OF r(1) 3(3)] r(2) by auto
    have disconnect: "drops own (links_of ?s) (snd (disconnect_peer E q ?s))"
    proof -
      have "snek_inv own ?s"
        using preservesD [OF snek_router.preserves_handle_frame r(1)] by simp
      then have "lost_from own (links_of ?s) ?s"
        by (simp add: lost_from_def drops_same)
      then show ?thesis
        using preservesD [OF lost_router.preserves_disconnect_peer] by (simp add: lost_from_def)
    qed
    show ?thesis
      using after s(1) disconnect s(2) 3(2) r(2)
      by (auto simp: after_frame_def Let_def event_or_same_def spawn_def act_modify_def drops_same)
  next
    case (4 E u d a)
    then have "heard_step C (\<lambda>q f. (\<exists>a. f = TreeAnnouncement a) \<and> \<not> handshake f) r r'"
      by (simp add: heard_step.heard_connect heard_first_def handshake_def)
    then have "lost_from own (links_of r) r'"
      using start by (rule lost_router.step_keeps)
    then show ?thesis by (simp add: lost_from_def)
  qed
qed

text \<open>
  C7: the router refines the link machine. Whatever a router in a reachable state does in one step
  - receive any frame, lose or accept a peer, run a timer or a task, panic on the way - at most
  one link is gained, and the gain is the event of a frame heard in this step, on the links as
  they were before it: the ACK of a bootstrap makes its sender the pending link, under the path id
  it names, only towards a higher key and only as an improvement on the link above; the ACK of a
  setup confirms the pending link, if it names it; a setup makes its source the link below, only
  if it is for this node, comes from a lower key and improves on the link below. Otherwise links
  are only lost, and each only with the entry of its path in the table.
\<close>

theorem router_refines_links:
  assumes "reachable C key r" and "heard_step C W r r'"
  shows "drops (verification_key C key) (links_of r) r' \<or>
    (\<exists>q f. W q f \<and> link_event (verification_key C key) f (links_of r) (links_of r'))"
  using reachable_snek_inv [OF assms(1)] assms(2) by (rule heard_step_links)

lemma reachable_links: "reachable C key r \<Longrightarrow> links_ok (verification_key C key) (links_of r)"
proof (induction rule: reachable.induct)
  case reach_new
  have "links_of (new_router C key) = no_links"
    by (simp add: new_router_def links_of_def no_links_def)
  then show ?case by (simp add: links_ok_start)
next
  case (reach_step r r')
  then show ?case
    using heard_step_links [OF reachable_snek_inv router_step_heard] links_ok_event
      links_ok_loses [OF drops_loses] by blast
qed

text \<open>
  C26: a candidate is an improvement. In every reachable state the candidate leads to a higher
  key, and if there is an ascending path beside it, the candidate goes to a lower key than that
  path, or to the same key by a new path, or was set up when that path had expired.
\<close>

theorem candidate_improves:
  assumes "reachable C key r" and "candidate r = Some c"
  shows "public_key r < path_origin c \<and>
    (\<forall>a. ascending_path r = Some a \<longrightarrow>
       path_origin c < path_origin a \<or>
       path_origin c = path_origin a \<and> pi_path_id (path_index c) \<noteq> pi_path_id (path_index a) \<or>
       path_last_seen a + SNEK_EXPIRY_PERIOD \<le> path_last_seen c)"
  using reachable_links [OF assms(1)] assms(2) reachable_snek_inv [OF assms(1)]
  by (auto simp: links_ok_def improves_above_def outlived_def renewed_def snek_inv_def)

section \<open>Examples\<close>

text \<open>The connected node receives the ACK of a bootstrap from its root.\<close>

definition example_requested :: router_state where
  "example_requested = snd (local_frame example_env (SnekBootstrapACK example_ack) example_connected)"

lemma example_requests: "router_step example_crypto example_connected example_requested"
  unfolding example_requested_def by (rule step_local) simp

lemma example_requested_candidate:
  "candidate example_requested = Some ((own_entry example_env (repeat_byte 5) 1 example_ack)\<lparr>path_active := True\<rparr>)"
proof -
  obtain x where eq: "example_connected = (stored example_env
     ((new_router example_crypto (repeat_byte 5))\<lparr>running := True,
        upload_connections := [(repeat_byte 9, 0)], download_connections := [(repeat_byte 9, 0)],
        ports := [(1, Some (repeat_byte 9))], spawned := [Peer_Loop (repeat_byte 9)]\<rparr>)
     (heard 9 4 1) (repeat_byte 9))\<lparr>parent := repeat_byte 9, sent := x\<rparr>"
    using example_connected_eq by blast
  have root: "current_root example_connected = Root (repeat_byte 9) 1"
    and ann: "tree_announcement_of example_connected (repeat_byte 9) = Some (stamped example_env
      ((new_router example_crypto (repeat_byte 5))\<lparr>running := True,
        upload_connections := [(repeat_byte 9, 0)], download_connections := [(repeat_byte 9, 0)],
        ports := [(1, Some (repeat_byte 9))], spawned := [Peer_Loop (repeat_byte 9)]\<rparr>) (heard 9 4 1))"
    and port: "port_of example_connected (repeat_byte 9) = Some 1"
    and none: "ascending_path example_connected = None" "running example_connected"
    by (simp_all add: eq current_root_def current_announcement_def tree_announcement_of_def stored_def port_of_def
        hm_entries_def new_router_def)
  have hop: "next_tree_hop example_connected [] (repeat_byte 5) = Some (Some (repeat_byte 9))"
    by (simp add: next_tree_hop_def distance_to_def get_common_prefix_def Let_def peer_coords_eq ann root
        is_better_next_tree_hop_candidate_def)
  have "bootstrap_ack_update 100 example_connected example_ack = Some True"
    by (simp add: bootstrap_ack_update_def example_ack_def root none)
  then have "candidate (snd (handle_bootstrap_ack example_env example_ack example_connected)) =
      Some ((own_entry example_env (repeat_byte 5) 1 example_ack)\<lparr>path_active := True\<rparr>)"
    using hop port
    by (subst handle_bootstrap_ack_run [where p = "repeat_byte 9" and port = 1]) (simp_all add: example_ack_def)
  moreover have "next_tree_hop example_connected (ba_destination_coordinates example_ack) (repeat_byte 5) =
      Some (Some (repeat_byte 5))"
    using next_tree_hop_here [of "[4]" example_connected "repeat_byte 5"] by (simp add: example_ack_def)
  ultimately show ?thesis
    using none
    by (auto simp: example_requested_def local_frame_def act_get_apply forward_tree_def act_unwrap_def done_ok_def
        act_seq_def act_bind_def act_ret_def split: prod.split option.split)
qed

theorem router_refines_links_witness:
  "link_event (repeat_byte 5) (SnekBootstrapACK example_ack) (links_of example_connected) (links_of example_requested) \<and>
   pending (links_of example_requested) = Some (Link (repeat_byte 9) 33 100)"
proof -
  have step: "heard_step example_crypto (\<lambda>q f. f = SnekBootstrapACK example_ack) example_connected example_requested"
    unfolding example_requested_def by (rule heard_local) simp_all
  have "candidate example_connected = None"
    using example_connected_eq by (elim exE ssubst) (simp add: stored_def new_router_def)
  then show ?thesis
    using router_refines_links [OF example_connected_reachable step]
    by (auto simp: example_requested_candidate link_of_def own_entry_def example_ack_def drops_def loses_def)
qed

theorem candidate_improves_witness:
  "\<exists>c. candidate example_requested = Some c \<and> public_key example_requested < path_origin c"
  using candidate_improves [OF reach_step [OF example_connected_reachable example_requests] example_requested_candidate]
  by (simp add: example_requested_candidate)

end
