(* ===== verification/Lock_Traces.thy ===== *)
theory Lock_Traces
  imports Router
begin

text \<open>
  What the operations of \<open>src/router.rs\<close> lock: for every one of them the list of the locks it
  acquires and releases, as a function of the state it runs on. Every field of the router has its
  own \<open>RwLock\<close>; the lemmas at the end show that an operation changes a field only under its lock.
\<close>

section \<open>Locks\<close>

text \<open>
  The sockets of a peer and the channel of the local client are mutexes, which are only taken to
  write.
\<close>

datatype lock =
    Local_Upload
  | Ascending | Descending | Paths | Candidate
  | Parent | Announcements | Sequence | Ordering | Ports
  | Upload | Download | Socket connection | Download_Socket connection
  | Reparent_Timer | Running

datatype lock_mode = Read | Write

datatype lock_op = Acquire lock lock_mode | Release lock lock_mode

section \<open>What the handlers of the snake lock\<close>

text \<open>
  The operations of a handler that runs on the state \<open>r\<close> and does not panic; a panic drops the
  guards and ends the task. A guard kept over some code and one dropped at once:
\<close>

definition guarding :: "lock \<Rightarrow> lock_mode \<Rightarrow> lock_op list \<Rightarrow> lock_op list" where
  "guarding l m ops = Acquire l m # ops @ [Release l m]"

definition brief :: "lock \<Rightarrow> lock_mode \<Rightarrow> lock_op list" where
  "brief l m = guarding l m []"

definition port_locks :: "router_state \<Rightarrow> public_key \<Rightarrow> lock_op list" where
  "port_locks r key = (if public_key r = key then [] else brief Ports Read)"

definition peer_on_port_locks :: "port \<Rightarrow> lock_op list" where
  "peer_on_port_locks p = (if p = 0 then [] else brief Ports Read)"

definition current_announcement_locks :: "router_state \<Rightarrow> lock_op list" where
  "current_announcement_locks r =
     brief Parent Read @ brief Announcements Read @
     (if tree_announcement_of r (parent r) = None then brief Sequence Read @ brief Ordering Read else [])"

definition send_locks :: "router_state \<Rightarrow> public_key \<Rightarrow> lock_op list" where
  "send_locks r to =
     (if to = public_key r then []
      else guarding Upload Read
        (case hm_get (upload_connections r) to of Some socket \<Rightarrow> brief (Socket socket) Write | None \<Rightarrow> []))"

definition send_by_port_locks :: "router_state \<Rightarrow> port \<Rightarrow> lock_op list" where
  "send_by_port_locks r p =
     peer_on_port_locks p @ (case get_peer_on_port r p of Some peer \<Rightarrow> send_locks r peer | None \<Rightarrow> [])"

definition next_tree_hop_locks :: "router_state \<Rightarrow> coordinates \<Rightarrow> public_key \<Rightarrow> lock_op list" where
  "next_tree_hop_locks r dest from =
     current_announcement_locks r @
     (if dest = coordinates_of r then []
      else current_announcement_locks r @
        (if distance_to dest (coordinates_of r) = 0 then []
         else brief Ports Read @
           concat (map (\<lambda>peer.
             if peer = from then []
             else brief Announcements Read @
               (if tree_announcement_of r peer = None then []
                else brief Announcements Read @ current_announcement_locks r)) (peers r))))"

definition rejected_path_locks :: "router_state \<Rightarrow> port \<Rightarrow> lock_op list" where
  "rejected_path_locks r via = current_announcement_locks r @ send_by_port_locks r via"

definition bootstrap_ack_locks :: "system_time \<Rightarrow> router_state \<Rightarrow> snek_bootstrap_ack \<Rightarrow> lock_op list" where
  "bootstrap_ack_locks now r ack =
     guarding Ascending Read (guarding Paths Write
       ((if ba_source_key ack = public_key r then [] else current_announcement_locks r) @
        (if bootstrap_ack_update now r ack = Some True then
           current_announcement_locks r @
           next_tree_hop_locks r (ba_source_coordinates ack) (public_key r) @
           (case next_tree_hop r (ba_source_coordinates ack) (public_key r) of
              Some (Some peer) \<Rightarrow>
                if public_key r = peer then []
                else send_locks r peer @ port_locks r peer @ brief Candidate Write
            | _ \<Rightarrow> [])
         else [])))"

definition setup_locks :: "system_time \<Rightarrow> router_state \<Rightarrow> port \<Rightarrow> snek_setup \<Rightarrow> port \<Rightarrow> lock_op list" where
  "setup_locks now r from rx next_hop =
     guarding Descending Write (guarding Paths Write
       (current_announcement_locks r @
        (if current_root r \<noteq> su_root rx then rejected_path_locks r from else []) @
        (if hm_contains_key (paths r) (Snek_Path_Index (su_source_key rx) (su_path_id rx)) then
           rejected_path_locks r from
         else if su_destination_key rx = public_key r then
           current_announcement_locks r @
           (case setup_update now r rx of
              None \<Rightarrow> []
            | Some update \<Rightarrow> if update then send_by_port_locks r from else rejected_path_locks r from)
         else
           peer_on_port_locks next_hop @
           (case get_peer_on_port r next_hop of
              None \<Rightarrow> []
            | Some peer \<Rightarrow> if peer = public_key r then rejected_path_locks r from else send_locks r peer))))"

definition activate_locks :: "router_state \<Rightarrow> port \<Rightarrow> snek_setup_ack \<Rightarrow> snek_path_index \<Rightarrow> snek_path \<Rightarrow> lock_op list" where
  "activate_locks r from rx key entry =
     (if path_active entry \<or> pi_public_key key \<noteq> sa_destination_key rx \<or> pi_path_id key \<noteq> sa_path_id rx
      then []
      else if from = path_destination entry \<or> from = 0 then
        (if path_source entry \<noteq> 0 then send_by_port_locks r (path_source entry) else []) @
        guarding Candidate Write
          (if candidate r = Some (entry\<lparr>path_active := True\<rparr>) then brief Ascending Write else [])
      else [])"

definition setup_ack_locks :: "router_state \<Rightarrow> port \<Rightarrow> snek_setup_ack \<Rightarrow> lock_op list" where
  "setup_ack_locks r from rx =
     guarding Paths Write
       (concat (map (\<lambda>(key, entry). activate_locks r from rx key entry) (hm_entries (paths r))))"

definition teardown_locks :: "lock_op list" where
  "teardown_locks = guarding Ascending Write (guarding Descending Write (brief Paths Write))"

definition run_teardown_locks :: "router_state \<Rightarrow> port \<Rightarrow> public_key \<Rightarrow> snek_path_id \<Rightarrow> lock_op list" where
  "run_teardown_locks r from path_key path_id =
     current_announcement_locks r @ teardown_locks @
     (case fst (teardown_path from path_key path_id r) of
        Some hops \<Rightarrow> concat (map (send_by_port_locks r) hops)
      | None \<Rightarrow> [])"

text \<open>
  Disconnecting up to the loss of the sockets. The guards of \<open>ascending_path\<close> and
  \<open>descending_path\<close> are dropped early only when there is such a path; otherwise they live to the
  end of the block.
\<close>

definition disconnect_descending_locks :: "router_state \<Rightarrow> port \<Rightarrow> lock_op list" where
  "disconnect_descending_locks r p =
     (case descending_path r of
        Some desc \<Rightarrow> brief Descending Read @ (if path_destination desc = p then teardown_locks else []) @
          brief Ports Write
      | None \<Rightarrow> guarding Descending Read (brief Ports Write))"

definition disconnect_locks :: "router_state \<Rightarrow> public_key \<Rightarrow> lock_op list" where
  "disconnect_locks r peer =
     port_locks r peer @
     (case port_of r peer of
        Some p \<Rightarrow>
          brief Paths Read @
          (case ascending_path r of
             Some asc \<Rightarrow> brief Ascending Read @ (if path_destination asc = p then teardown_locks else []) @
               disconnect_descending_locks r p
           | None \<Rightarrow> guarding Ascending Read (disconnect_descending_locks r p))
      | None \<Rightarrow> []) @
     brief Announcements Write @ brief Upload Write @ brief Download Write"

text \<open>Adding a peer, up to its first announcement; the early returns drop the guards in reverse.\<close>

definition add_peer_locks :: "router_state \<Rightarrow> public_key \<Rightarrow> lock_op list" where
  "add_peer_locks r peer =
     (if hm_contains_key (download_connections r) peer \<or> hm_contains_key (upload_connections r) peer
      then guarding Upload Write (brief Download Write)
      else [Acquire Upload Write, Acquire Download Write, Release Upload Write, Release Download Write] @
        brief Ports Write)"

text \<open>
  Polling a peer takes its socket out of the table first, so that only the socket is locked while
  the next frame is waited for. The loop of the local client keeps its channel locked while it
  handles the frames of the client.
\<close>

definition poll_peer_locks :: "router_state \<Rightarrow> public_key \<Rightarrow> lock_op list" where
  "poll_peer_locks r peer =
     brief Download Read @
     (case hm_get (download_connections r) peer of
        Some socket \<Rightarrow> brief (Download_Socket socket) Write
      | None \<Rightarrow> [])"

definition local_loop_locks :: "lock_op list list \<Rightarrow> lock_op list" where
  "local_loop_locks handlers =
     guarding Local_Upload Write (concat (map (\<lambda>ops. brief Running Read @ ops) handlers) @ brief Running Read)"

section \<open>What the operations of the tree lock\<close>

text \<open>The state an operation leaves.\<close>

definition after :: "'a router_act \<Rightarrow> router_state \<Rightarrow> router_state" where
  "after m r = snd (m r)"

definition send_announcement_locks :: "router_state \<Rightarrow> public_key \<Rightarrow> lock_op list" where
  "send_announcement_locks r to = port_locks r to @ send_locks r to"

definition send_announcements_locks :: "router_state \<Rightarrow> lock_op list" where
  "send_announcements_locks r = brief Ports Read @ concat (map (send_announcement_locks r) (peers r))"

definition parent_selection_locks :: "env \<Rightarrow> router_state \<Rightarrow> lock_op list" where
  "parent_selection_locks E r =
     current_announcement_locks r @
     (if root_public_key (current_root r) < public_key r then brief Parent Write else []) @
     (let r1 = (if root_public_key (current_root r) < public_key r then after become_root r else r)
      in current_announcement_locks r1 @ brief Ports Read @
         concat (map (\<lambda>peer. brief Announcements Read) (peers r1)) @
         (case parent_selection_loop (env_now E) r1 (peers r1) (current_root r1) None (- 1) of
            Some (Some best_peer) \<Rightarrow>
              brief Parent Read @
              (if best_peer = parent r1 then []
               else brief Parent Write @ current_announcement_locks (after (set_parent best_peer) r1) @
                 send_announcements_locks r1)
          | Some None \<Rightarrow> brief Parent Write
          | None \<Rightarrow> []))"

text \<open>
  A clean and fresh announcement is compared with the current one several times, each time read
  anew.
\<close>

definition from_parent_locks :: "router_state \<Rightarrow> tree_announcement \<Rightarrow> lock_op list" where
  "from_parent_locks r frame =
     (let key = root_public_key (ann_root frame); current = current_root r
      in if is_loop_of_child frame (public_key r) then brief Parent Write
         else current_announcement_locks r @
           (if key < root_public_key current then brief Parent Write
            else current_announcement_locks r @
              (if root_public_key current < key
               then current_announcement_locks r @ send_announcements_locks r
               else current_announcement_locks r @ current_announcement_locks r @
                 (if root_sequence_number current < root_sequence_number (ann_root frame)
                  then current_announcement_locks r @ send_announcements_locks r
                  else brief Parent Write))))"

definition from_other_locks :: "router_state \<Rightarrow> tree_announcement \<Rightarrow> public_key \<Rightarrow> lock_op list" where
  "from_other_locks r frame from =
     (let key = root_public_key (ann_root frame); current = current_root r
      in if is_loop_of_child frame (public_key r) then []
         else current_announcement_locks r @
           (if root_public_key current < key
            then brief Parent Write @ current_announcement_locks (after (set_parent from) r) @ send_announcements_locks r
            else current_announcement_locks r @
              (if key < root_public_key current
               then current_announcement_locks r @ send_announcement_locks r from
               else current_announcement_locks r)))"

definition handle_tree_announcement_locks :: "env \<Rightarrow> router_state \<Rightarrow> tree_announcement \<Rightarrow> public_key \<Rightarrow> lock_op list" where
  "handle_tree_announcement_locks E r frame from =
     brief Ordering Write @
     (if ordering r = - 1 then []
      else brief Ordering Read @
        (case is_clean (env_crypto E) frame from of
           Some True \<Rightarrow>
             brief Announcements Read @
             (if replayed r frame from then []
              else brief Announcements Write @ brief Reparent_Timer Read @
                (if \<not> reparent_timer_expired (env_now E) r then []
                 else brief Parent Read @
                   (if from = parent r then from_parent_locks (stored E r frame from) (stamped E r frame)
                    else from_other_locks (stored E r frame from) (stamped E r frame) from)))
         | _ \<Rightarrow> []))"

definition maintain_tree_locks :: "router_state \<Rightarrow> lock_op list" where
  "maintain_tree_locks r =
     brief Parent Read @
     (if \<not> i_am_root r then []
      else brief Sequence Write @
        (if sequence r = - 1 then [] else brief Sequence Read @ send_announcements_locks r))"

section \<open>What the search of a hop and the bootstraps lock\<close>

text \<open>A candidate that is better is looked up with \<open>ops\<close>, in each of the two tests it passes.\<close>

definition consider_locks :: "bool \<Rightarrow> public_key \<Rightarrow> lock_op list \<Rightarrow> public_key \<Rightarrow> snek_best \<Rightarrow> lock_op list" where
  "consider_locks bootstrap dest ops key best =
     (let update = (\<not> bootstrap \<and> key = dest \<and> fst best \<noteq> dest)
      in (if update then ops else []) @
         (if dht_ordered dest key (if update then key else fst best) then ops else []))"

fun hops_locks :: "bool \<Rightarrow> public_key \<Rightarrow> public_key \<Rightarrow> root_announcement_signature list \<Rightarrow> snek_best \<Rightarrow> lock_op list" where
  "hops_locks bootstrap dest peer [] best = []"
| "hops_locks bootstrap dest peer (hop # hops) best =
     consider_locks bootstrap dest (brief Parent Read) (signing_public_key hop) best @
     hops_locks bootstrap dest peer hops (snek_consider bootstrap dest peer (signing_public_key hop) best)"

fun table_locks ::
  "system_time \<Rightarrow> router_state \<Rightarrow> bool \<Rightarrow> public_key \<Rightarrow> (snek_path_index \<times> snek_path) list \<Rightarrow> snek_best \<Rightarrow> lock_op list" where
  "table_locks now r bootstrap dest [] best = []"
| "table_locks now r bootstrap dest ((key, entry) # rest) best =
     (if snek_path_valid now entry \<noteq> Some True \<or> path_source entry = 0 \<or> \<not> bootstrap \<and> \<not> path_active entry
      then table_locks now r bootstrap dest rest best
      else consider_locks bootstrap dest (peer_on_port_locks (path_source entry)) (pi_public_key key) best @
        (case get_peer_on_port r (path_source entry) of
           Some peer \<Rightarrow> table_locks now r bootstrap dest rest (snek_consider bootstrap dest peer (pi_public_key key) best)
         | None \<Rightarrow> table_locks now r bootstrap dest rest best))"

definition ancestors_locks :: "router_state \<Rightarrow> public_key \<Rightarrow> bool \<Rightarrow> bool \<Rightarrow> lock_op list" where
  "ancestors_locks r dest bootstrap traffic =
     (let root = root_public_key (current_root r);
          restart = (bootstrap \<and> public_key r = dest);
          to_root = current_announcement_locks r @ brief Parent Read
      in brief Parent Read @
         (if parent r = public_key r then []
          else (if restart then to_root else []) @
            current_announcement_locks r @
            (if dht_ordered (if restart then root else public_key r) dest root then to_root else []) @
            current_announcement_locks r @
            hops_locks bootstrap dest (parent r) (current_signatures r) (snek_start r dest bootstrap traffic)))"

definition next_snek_hop_locks :: "system_time \<Rightarrow> router_state \<Rightarrow> public_key \<Rightarrow> bool \<Rightarrow> bool \<Rightarrow> lock_op list" where
  "next_snek_hop_locks now r dest bootstrap traffic =
     (if \<not> bootstrap \<and> public_key r = dest then []
      else ancestors_locks r dest bootstrap traffic @ brief Announcements Read @ brief Ports Read @
        guarding Paths Read (table_locks now r bootstrap dest (hm_entries (paths r))
          (let start = snek_start r dest bootstrap traffic;
               best1 = (if parent r \<noteq> public_key r
                        then snek_hops_loop bootstrap dest (parent r) (current_signatures r) start else start)
           in snek_peers_loop (peers r)
                (snek_announcements_loop bootstrap dest (hm_entries (announcements r)) best1))))"

text \<open>Sending to the hop that was found, if there is one.\<close>

definition to_hop_locks :: "router_state \<Rightarrow> public_key option option \<Rightarrow> lock_op list" where
  "to_hop_locks r hop = (case hop of Some (Some peer) \<Rightarrow> send_locks r peer | _ \<Rightarrow> [])"

definition bootstrap_now_locks :: "env \<Rightarrow> router_state \<Rightarrow> lock_op list" where
  "bootstrap_now_locks E r =
     brief Parent Read @
     (if parent r = public_key r then []
      else current_announcement_locks r @ brief Ascending Read @
        (if (case ascending_path r of Some asc \<Rightarrow> path_root asc = current_root r | None \<Rightarrow> False) then []
         else current_announcement_locks r @ current_announcement_locks r @
           next_snek_hop_locks (env_now E) r (public_key r) True False @
           to_hop_locks r (next_snek_hop (env_now E) r (public_key r) True False)))"

definition handle_bootstrap_locks :: "router_state \<Rightarrow> snek_bootstrap \<Rightarrow> lock_op list" where
  "handle_bootstrap_locks r frame =
     current_announcement_locks r @
     (if current_root r = sb_root frame then
        current_announcement_locks r @ current_announcement_locks r @
        next_tree_hop_locks r (sb_source frame) (public_key r) @
        to_hop_locks r (next_tree_hop r (sb_source frame) (public_key r))
      else [])"

text \<open>
  The maintenance of the snake keeps the guard of each path while it looks at it, and only spawns
  the teardowns.
\<close>

definition maintain_snek_locks :: "env \<Rightarrow> router_state \<Rightarrow> lock_op list" where
  "maintain_snek_locks E r =
     current_announcement_locks r @ brief Parent Read @
     brief Ascending Read @ brief Descending Read @ brief Paths Read @
     (if fst (maintain_ascending E r) = Some True then bootstrap_now_locks E r else [])"

section \<open>What the tasks lock\<close>

fun handle_frame_locks :: "env \<Rightarrow> router_state \<Rightarrow> frame \<Rightarrow> public_key \<Rightarrow> lock_op list" where
  "handle_frame_locks E r (TreeRouted packet) from =
     next_tree_hop_locks r (tp_destination_coordinates packet) from @
     to_hop_locks r (next_tree_hop r (tp_destination_coordinates packet) from)"
| "handle_frame_locks E r (SnekRouted packet) from =
     next_snek_hop_locks (env_now E) r (sp_destination_key packet) False True @
     to_hop_locks r (next_snek_hop (env_now E) r (sp_destination_key packet) False True)"
| "handle_frame_locks E r (TreeAnnouncement announcement) from =
     handle_tree_announcement_locks E r announcement from"
| "handle_frame_locks E r (SnekBootstrap bootstrap) from =
     (let hop = next_snek_hop (env_now E) r (sb_destination_key bootstrap) True False
      in next_snek_hop_locks (env_now E) r (sb_destination_key bootstrap) True False @
         (if hop = Some (Some (public_key r)) then handle_bootstrap_locks r bootstrap else to_hop_locks r hop))"
| "handle_frame_locks E r (SnekBootstrapACK ack) from =
     (let hop = next_tree_hop r (ba_destination_coordinates ack) from
      in next_tree_hop_locks r (ba_destination_coordinates ack) from @
         (if hop = Some (Some (public_key r)) then bootstrap_ack_locks (env_now E) r ack else to_hop_locks r hop))"
| "handle_frame_locks E r (SnekSetup setup) from =
     port_locks r from @
     (case port_of r from of
        None \<Rightarrow> []
      | Some from_port \<Rightarrow>
          next_tree_hop_locks r (su_destination setup) from @
          (case next_tree_hop r (su_destination setup) from of
             Some (Some next_hop) \<Rightarrow>
               port_locks r next_hop @
               (case port_of r next_hop of
                  Some next_hop_port \<Rightarrow> setup_locks (env_now E) r from_port setup next_hop_port
                | None \<Rightarrow> [])
           | _ \<Rightarrow> []))"
| "handle_frame_locks E r (SnekSetupACK ack) from =
     port_locks r from @ (case port_of r from of Some p \<Rightarrow> setup_ack_locks r p ack | None \<Rightarrow> [])"
| "handle_frame_locks E r (SnekTeardown teardown) from =
     port_locks r from @ (case port_of r from of Some p \<Rightarrow> teardown_locks | None \<Rightarrow> [])"

text \<open>Disconnecting a peer: what is left when its sockets are gone, and what the tree does then.\<close>

definition detach_peer :: "public_key \<Rightarrow> bool router_act" where
  "detach_peer peer = act_bind
     (act_get (\<lambda>r. case port_of r peer of Some p \<Rightarrow> disconnect_port p | None \<Rightarrow> act_ret False))
     (\<lambda>bootstrap. act_seq
       (act_modify (\<lambda>r. r\<lparr>announcements := hm_remove peer (announcements r),
          upload_connections := hm_remove peer (upload_connections r),
          download_connections := hm_remove peer (download_connections r)\<rparr>))
       (act_ret bootstrap))"

definition reparent_now_locks :: "env \<Rightarrow> router_state \<Rightarrow> lock_op list" where
  "reparent_now_locks E r =
     parent_selection_locks E r @
     (if fst (parent_selection E r) = Some True then bootstrap_now_locks E (after (parent_selection E) r) else [])"

definition disconnect_peer_locks :: "env \<Rightarrow> router_state \<Rightarrow> public_key \<Rightarrow> lock_op list" where
  "disconnect_peer_locks E r peer =
     disconnect_locks r peer @
     (case detach_peer peer r of
        (None, r1) \<Rightarrow> []
      | (Some bootstrap, r1) \<Rightarrow>
          brief Parent Read @
          (if bootstrap then bootstrap_now_locks E r1
           else if parent r1 = peer then reparent_now_locks E r1 else []))"

text \<open>With the first announcement, as the tests add their peers.\<close>

definition add_and_announce_locks :: "env \<Rightarrow> router_state \<Rightarrow> public_key \<Rightarrow> port \<Rightarrow> lock_op list" where
  "add_and_announce_locks E r peer p =
     add_peer_locks r peer @
     (if hm_contains_key (download_connections r) peer \<or> hm_contains_key (upload_connections r) peer then []
      else let r1 = after (add_peer E peer p 0 0 False) r
        in current_announcement_locks r1 @ send_announcement_locks r1 peer)"

text \<open>Every port that is tried locks the table anew. The new connection is not shared yet.\<close>

definition accept_locks :: "env \<Rightarrow> router_state \<Rightarrow> port \<Rightarrow> connection \<Rightarrow> connection \<Rightarrow> tree_announcement \<Rightarrow> lock_op list" where
  "accept_locks E r p upload download ann =
     (if ann_signatures ann = [] then []
      else let key = signing_public_key (last (ann_signatures ann));
               r1 = r\<lparr>ports := hm_insert p (Some key) (ports r)\<rparr>;
               r2 = after (add_peer E key p upload download False) r1
        in brief Ports Write @ add_peer_locks r1 key @ handle_tree_announcement_locks E r2 ann key)"

definition connect_locks ::
  "env \<Rightarrow> router_state \<Rightarrow> connection \<Rightarrow> connection \<Rightarrow> (router_error + frame) option \<Rightarrow> lock_op list" where
  "connect_locks E r upload download first =
     (case new_port_from (ports r) 1 of
        None \<Rightarrow> []
      | Some p \<Rightarrow>
          let r1 = r\<lparr>ports := hm_insert p None (ports r)\<rparr>;
              announcement = append_signature (env_crypto E) (current_announcement (env_now E) r1) (private_key r1) p
          in concat (replicate (unat p) (brief Ports Write)) @ current_announcement_locks r1 @
             (if env_sink_send E upload (TreeAnnouncement announcement) \<noteq> None then []
              else case first of
                Some (Inr (TreeAnnouncement ann)) \<Rightarrow> accept_locks E r1 p upload download ann
              | _ \<Rightarrow> []))"

definition start_locks :: "lock_op list" where
  "start_locks = brief Running Write"

fun disconnect_all_locks :: "env \<Rightarrow> public_key list \<Rightarrow> router_state \<Rightarrow> lock_op list" where
  "disconnect_all_locks E [] r = []"
| "disconnect_all_locks E (peer # rest) r =
     disconnect_peer_locks E r peer @ disconnect_all_locks E rest (after (disconnect_peer E peer) r)"

definition stop_locks :: "env \<Rightarrow> router_state \<Rightarrow> lock_op list" where
  "stop_locks E r =
     brief Running Write @ brief Ports Read @ disconnect_all_locks E (peers r) (r\<lparr>running := False\<rparr>)"

definition tree_tick_locks :: "router_state \<Rightarrow> lock_op list" where
  "tree_tick_locks r = brief Running Read @ (if running r then maintain_tree_locks r else [])"

definition snek_tick_locks :: "env \<Rightarrow> router_state \<Rightarrow> lock_op list" where
  "snek_tick_locks E r = brief Running Read @ (if running r then maintain_snek_locks E r else [])"

definition poll_frame_locks :: "env \<Rightarrow> router_state \<Rightarrow> (router_error + frame) option \<Rightarrow> public_key \<Rightarrow> lock_op list" where
  "poll_frame_locks E r item peer =
     poll_peer_locks r peer @
     (case (hm_get (download_connections r) peer, item) of
        (Some socket, Some (Inr frame)) \<Rightarrow> handle_frame_locks E r frame peer
      | _ \<Rightarrow> [])"

definition peer_loop_locks :: "env \<Rightarrow> router_state \<Rightarrow> (router_error + frame) option \<Rightarrow> public_key \<Rightarrow> lock_op list" where
  "peer_loop_locks E r item peer =
     brief Running Read @
     (if \<not> running r then disconnect_peer_locks E r peer
      else poll_frame_locks E r item peer @
        (case poll_peer E peer item r of
           (Some (Inl e), r1) \<Rightarrow> disconnect_peer_locks E r1 peer
         | _ \<Rightarrow> []))"

fun run_task_locks :: "env \<Rightarrow> router_state \<Rightarrow> (router_error + frame) option \<Rightarrow> task \<Rightarrow> lock_op list" where
  "run_task_locks E r item (Send_Teardown p key path_id) = run_teardown_locks r p key path_id"
| "run_task_locks E r item (Reparent wait) =
     (if wait then brief Reparent_Timer Write else reparent_now_locks E r)"
| "run_task_locks E r item Reparent_Waited = reparent_now_locks E r"
| "run_task_locks E r item (Peer_Loop peer) = peer_loop_locks E r item peer"

end
