(* ===== verification/Locks.thy ===== *)
theory Locks
  imports Lock_Traces
begin

text \<open>
  The locks of \<open>src/router.rs\<close>. Every field of the router has its own \<open>RwLock\<close>, and handlers of
  different peers, timers and spawned tasks run concurrently. The other theories run a handler
  as one step; this one looks at what it acquires and releases on the way, in which order, and
  whether handlers that run together can block each other for good.
\<close>

section \<open>Locks and threads\<close>

text \<open>The locks in the order in which most handlers nest them.\<close>

fun rank :: "lock \<Rightarrow> nat" where
  "rank Local_Upload = 0"
| "rank Ascending = 1"
| "rank Descending = 2"
| "rank Paths = 3"
| "rank Candidate = 4"
| "rank Parent = 5"
| "rank Announcements = 6"
| "rank Sequence = 7"
| "rank Ordering = 8"
| "rank Ports = 9"
| "rank Upload = 10"
| "rank Download = 11"
| "rank (Socket c) = 12"
| "rank (Download_Socket c) = 13"
| "rank Reparent_Timer = 14"
| "rank Running = 15"

lemma rank_le: "rank l \<le> 15"
  by (cases l) simp_all

text \<open>
  A thread has operations to do and holds guards. Its next acquisition is granted if no guard,
  of any thread, its own included, conflicts with it; under \<open>fair\<close> queueing, which is what the
  locks of tokio do, a reader also waits behind a writer that waits.
\<close>

type_synonym guard = "lock \<times> lock_mode"
type_synonym thread = "lock_op list \<times> guard list"

definition conflicts :: "lock \<Rightarrow> lock_mode \<Rightarrow> guard \<Rightarrow> bool" where
  "conflicts l m g \<longleftrightarrow> fst g = l \<and> (m = Write \<or> snd g = Write)"

definition held_against :: "thread list \<Rightarrow> lock \<Rightarrow> lock_mode \<Rightarrow> bool" where
  "held_against ts l m \<longleftrightarrow> (\<exists>t \<in> set ts. \<exists>g \<in> set (snd t). conflicts l m g)"

fun wants :: "thread \<Rightarrow> lock \<Rightarrow> lock_mode \<Rightarrow> bool" where
  "wants (Acquire l m # ops, gs) l' m' \<longleftrightarrow> l = l' \<and> m = m'"
| "wants t l' m' \<longleftrightarrow> False"

definition granted :: "bool \<Rightarrow> thread list \<Rightarrow> lock \<Rightarrow> lock_mode \<Rightarrow> bool" where
  "granted fair ts l m \<longleftrightarrow> \<not> held_against ts l m \<and>
     (fair \<and> m = Read \<longrightarrow> (\<forall>t \<in> set ts. \<not> wants t l Write))"

inductive lock_step :: "bool \<Rightarrow> thread list \<Rightarrow> thread list \<Rightarrow> bool" for fair where
  acquires: "i < length ts \<Longrightarrow> ts ! i = (Acquire l m # ops, gs) \<Longrightarrow> granted fair ts l m \<Longrightarrow>
    lock_step fair ts (ts[i := (ops, (l, m) # gs)])"
| releases: "i < length ts \<Longrightarrow> ts ! i = (Release l m # ops, gs) \<Longrightarrow>
    lock_step fair ts (ts[i := (ops, remove1 (l, m) gs)])"

inductive_cases lock_stepE: "lock_step fair ts ts'"

abbreviation lock_steps :: "bool \<Rightarrow> thread list \<Rightarrow> thread list \<Rightarrow> bool" where
  "lock_steps fair \<equiv> (lock_step fair)\<^sup>*\<^sup>*"

definition launch :: "lock_op list list \<Rightarrow> thread list" where
  "launch progs = map (\<lambda>ops. (ops, [])) progs"

definition finished :: "thread list \<Rightarrow> bool" where
  "finished ts \<longleftrightarrow> (\<forall>t \<in> set ts. fst t = [])"

definition deadlocked :: "bool \<Rightarrow> thread list \<Rightarrow> bool" where
  "deadlocked fair ts \<longleftrightarrow> \<not> finished ts \<and> (\<nexists>ts'. lock_step fair ts ts')"

section \<open>Handlers that nest in the order\<close>

text \<open>A thread keeps the order when it only acquires above everything it holds.\<close>

fun keeps_order :: "lock_op list \<Rightarrow> guard list \<Rightarrow> bool" where
  "keeps_order [] gs \<longleftrightarrow> gs = []"
| "keeps_order (Acquire l m # ops) gs \<longleftrightarrow> (\<forall>g \<in> set gs. rank (fst g) < rank l) \<and> keeps_order ops ((l, m) # gs)"
| "keeps_order (Release l m # ops) gs \<longleftrightarrow> (l, m) \<in> set gs \<and> keeps_order ops (remove1 (l, m) gs)"

definition nested :: "nat \<Rightarrow> lock_op list \<Rightarrow> bool" where
  "nested n ops \<longleftrightarrow> (\<forall>gs rest. (\<forall>g \<in> set gs. rank (fst g) < n) \<longrightarrow> keeps_order rest gs \<longrightarrow> keeps_order (ops @ rest) gs)"

named_theorems nesting

lemma nested_Nil [nesting]: "nested n []"
  by (simp add: nested_def)

lemma nested_append [nesting]: "nested n ops \<Longrightarrow> nested n ops' \<Longrightarrow> nested n (ops @ ops')"
  by (simp add: nested_def)

lemma nested_mono: "nested n ops \<Longrightarrow> k \<le> n \<Longrightarrow> nested k ops"
  unfolding nested_def by (meson order_less_le_trans)

lemma nested_guarding:
  assumes "nested (Suc (rank l)) ops" and "n \<le> rank l"
  shows "nested n (guarding l m ops)"
  unfolding nested_def
proof (intro allI impI)
  fix gs rest
  assume below: "\<forall>g \<in> set gs. rank (fst g) < n" and rest: "keeps_order rest gs"
  have "\<forall>g \<in> set ((l, m) # gs). rank (fst g) < Suc (rank l)" "keeps_order (Release l m # rest) ((l, m) # gs)"
    using below rest assms(2) by auto
  then have "keeps_order (ops @ Release l m # rest) ((l, m) # gs)"
    using assms(1) unfolding nested_def by blast
  then show "keeps_order (guarding l m ops @ rest) gs"
    using below assms(2) by (auto simp: guarding_def)
qed

lemma nested_guarding_simp [nesting]:
  "nested (Suc (rank l)) ops \<and> n \<le> rank l \<Longrightarrow> nested n (guarding l m ops)"
  using nested_guarding by blast

lemma nested_brief [nesting]: "n \<le> rank l \<Longrightarrow> nested n (brief l m)"
  by (simp add: brief_def nested_guarding nested_Nil)

lemma nested_concat [nesting]: "(\<And>ops. ops \<in> set opss \<Longrightarrow> nested n ops) \<Longrightarrow> nested n (concat opss)"
  by (induction opss) (simp_all add: nested_Nil nested_append)

lemma nested_if [nesting]: "(c \<Longrightarrow> nested n a) \<Longrightarrow> (\<not> c \<Longrightarrow> nested n b) \<Longrightarrow> nested n (if c then a else b)"
  by simp

lemma nested_option [nesting]:
  "nested n a \<Longrightarrow> (\<And>x. v = Some x \<Longrightarrow> nested n (f x)) \<Longrightarrow> nested n (case v of None \<Rightarrow> a | Some x \<Rightarrow> f x)"
  by (simp split: option.split)

lemma nested_start: "nested n ops \<Longrightarrow> keeps_order ops []"
  unfolding nested_def using keeps_order.simps(1) by (metis append.right_neutral empty_iff empty_set)

lemma nested_send: "n \<le> 10 \<Longrightarrow> nested n (send_locks r to)"
  unfolding send_locks_def by (intro nesting conjI) auto

lemma nested_peer_on_port: "n \<le> 9 \<Longrightarrow> nested n (peer_on_port_locks p)"
  unfolding peer_on_port_locks_def by (intro nesting) auto

lemma nested_port: "n \<le> 9 \<Longrightarrow> nested n (port_locks r key)"
  unfolding port_locks_def by (intro nesting) auto

lemma nested_send_by_port: "n \<le> 9 \<Longrightarrow> nested n (send_by_port_locks r p)"
  unfolding send_by_port_locks_def by (intro nesting nested_send nested_peer_on_port) auto

lemma nested_current_announcement: "n \<le> 5 \<Longrightarrow> nested n (current_announcement_locks r)"
  unfolding current_announcement_locks_def by (intro nesting) auto

lemma nested_tree_hop: "n \<le> 5 \<Longrightarrow> nested n (next_tree_hop_locks r dest from)"
  unfolding next_tree_hop_locks_def by (auto intro!: nesting nested_current_announcement)

lemma nested_rejected: "n \<le> 5 \<Longrightarrow> nested n (rejected_path_locks r via)"
  unfolding rejected_path_locks_def by (intro nesting nested_current_announcement nested_send_by_port) auto

lemmas nested_parts = nested_send nested_peer_on_port nested_port nested_send_by_port
  nested_current_announcement nested_tree_hop nested_rejected

lemma nested_bootstrap_ack: "nested (Suc 0) (bootstrap_ack_locks now r ack)"
  unfolding bootstrap_ack_locks_def by (intro nesting conjI nested_parts) auto

lemma nested_setup: "nested (Suc 0) (setup_locks now r from rx next_hop)"
  unfolding setup_locks_def by (intro nesting conjI nested_parts) auto

lemma nested_teardown: "nested (Suc 0) teardown_locks"
  unfolding teardown_locks_def by (intro nesting conjI) auto

lemma nested_run_teardown: "nested (Suc 0) (run_teardown_locks r from path_key path_id)"
  unfolding run_teardown_locks_def by (auto intro!: nesting nested_parts nested_teardown split: option.split)

lemma nested_add_peer: "nested (Suc 0) (add_peer_locks r peer)"
  unfolding add_peer_locks_def
  by (intro nesting conjI) (auto simp: nested_def)

lemma nested_poll: "nested (Suc 0) (poll_peer_locks r peer)"
  unfolding poll_peer_locks_def by (intro nesting) auto

text \<open>A setup ACK keeps the order unless some entry, once active, is the candidate.\<close>

lemma nested_activate:
  "candidate r \<noteq> Some (entry\<lparr>path_active := True\<rparr>) \<Longrightarrow> n \<le> 4 \<Longrightarrow> nested n (activate_locks r from rx key entry)"
  unfolding activate_locks_def by (auto intro!: nesting nested_parts)

lemma nested_setup_ack:
  assumes "\<forall>(key, entry) \<in> set (hm_entries (paths r)). candidate r \<noteq> Some (entry\<lparr>path_active := True\<rparr>)"
  shows "nested (Suc 0) (setup_ack_locks r from rx)"
proof -
  have "nested 4 ops"
    if "ops \<in> set (map (\<lambda>(key, entry). activate_locks r from rx key entry) (hm_entries (paths r)))" for ops
    using assms that by (auto intro!: nested_activate)
  then show ?thesis
    unfolding setup_ack_locks_def by (intro nesting conjI) auto
qed

text \<open>The port of a peer is not zero, so the descending path, which ends here, does not go through it.\<close>

lemma nested_disconnect:
  assumes inv: "snek_inv own r" and wf: "ports_wf r" and peer: "peer \<noteq> own"
  shows "nested (Suc 0) (disconnect_locks r peer)"
proof -
  have "p \<noteq> 0" if "port_of r peer = Some p" for p
    using get_peer_on_port_of [OF wf that] peer inv by (auto simp: get_peer_on_port_def snek_inv_def)
  then have down: "port_of r peer = Some p \<Longrightarrow> n \<le> 2 \<Longrightarrow> nested n (disconnect_descending_locks r p)" for p n
    using inv unfolding disconnect_descending_locks_def
    by (cases "descending_path r") (auto simp: snek_inv_def down_path_def intro!: nesting)
  show ?thesis
    unfolding disconnect_locks_def
    by (intro nesting nested_parts nested_teardown conjI down) auto
qed

lemma nested_announcement: "n \<le> 9 \<Longrightarrow> nested n (send_announcement_locks r to)"
  unfolding send_announcement_locks_def by (intro nesting nested_parts) auto

lemma nested_announcements: "n \<le> 9 \<Longrightarrow> nested n (send_announcements_locks r)"
  unfolding send_announcements_locks_def by (auto intro!: nesting nested_announcement)

lemmas nested_tree_parts = nested_parts nested_announcement nested_announcements

lemma nested_parent_selection: "n \<le> 5 \<Longrightarrow> nested n (parent_selection_locks E r)"
  unfolding parent_selection_locks_def Let_def
  by (auto intro!: nesting nested_tree_parts split: option.split)

lemma nested_from_peer:
  "n \<le> 5 \<Longrightarrow> nested n (from_parent_locks r a)" "n \<le> 5 \<Longrightarrow> nested n (from_other_locks r a from)"
  unfolding from_parent_locks_def from_other_locks_def Let_def
  by (intro nesting nested_tree_parts; simp)+

lemma nested_handle_announcement: "n \<le> 5 \<Longrightarrow> nested n (handle_tree_announcement_locks E r a from)"
  unfolding handle_tree_announcement_locks_def
  by (auto intro!: nesting nested_from_peer split: option.split bool.split)

lemma nested_maintain_tree: "n \<le> 5 \<Longrightarrow> nested n (maintain_tree_locks r)"
  unfolding maintain_tree_locks_def by (auto intro!: nesting nested_tree_parts)

lemma nested_consider: "nested n ops \<Longrightarrow> nested n (consider_locks bootstrap dest ops key best)"
  unfolding consider_locks_def Let_def by (intro nesting)

lemma nested_hops: "n \<le> 5 \<Longrightarrow> nested n (hops_locks bootstrap dest peer hops best)"
  by (induction hops arbitrary: best) (simp_all add: nesting nested_consider)

lemma nested_table: "n \<le> 9 \<Longrightarrow> nested n (table_locks now r bootstrap dest entries best)"
proof (induction entries arbitrary: best)
  case (Cons x entries)
  then show ?case
    by (cases x) (simp add: nesting nested_consider nested_peer_on_port split: option.split)
qed (simp add: nested_Nil)

lemma nested_snek_hop: "n \<le> 3 \<Longrightarrow> nested n (next_snek_hop_locks now r dest bootstrap traffic)"
  unfolding next_snek_hop_locks_def ancestors_locks_def Let_def
  by (intro nesting nested_parts nested_hops nested_table conjI) auto

lemma nested_to_hop: "n \<le> 10 \<Longrightarrow> nested n (to_hop_locks r hop)"
  unfolding to_hop_locks_def by (auto intro!: nesting nested_parts split: option.split)

lemma nested_bootstrap_now: "n \<le> 1 \<Longrightarrow> nested n (bootstrap_now_locks E r)"
  unfolding bootstrap_now_locks_def by (intro nesting nested_parts nested_snek_hop nested_to_hop) auto

lemma nested_handle_bootstrap: "n \<le> 5 \<Longrightarrow> nested n (handle_bootstrap_locks r frame)"
  unfolding handle_bootstrap_locks_def by (intro nesting nested_parts nested_to_hop) auto

lemma nested_maintain_snek: "n \<le> 1 \<Longrightarrow> nested n (maintain_snek_locks E r)"
  unfolding maintain_snek_locks_def by (intro nesting nested_parts nested_bootstrap_now) auto

lemma nested_reparent_now: "n \<le> 1 \<Longrightarrow> nested n (reparent_now_locks E r)"
  unfolding reparent_now_locks_def by (intro nesting nested_parent_selection nested_bootstrap_now) auto

text \<open>A frame keeps the order unless it is a setup ACK and some entry, once active, is the candidate.\<close>

definition completes_nothing :: "router_state \<Rightarrow> frame \<Rightarrow> bool" where
  "completes_nothing r frame \<longleftrightarrow>
     (\<forall>ack. frame = SnekSetupACK ack \<longrightarrow>
        (\<forall>(key, entry) \<in> set (hm_entries (paths r)). candidate r \<noteq> Some (entry\<lparr>path_active := True\<rparr>)))"

lemma nested_handle_frame: "completes_nothing r frame \<Longrightarrow> nested (Suc 0) (handle_frame_locks E r frame from)"
  by (cases frame) (auto simp: Let_def completes_nothing_def intro!: nesting nested_parts nested_snek_hop nested_to_hop
      nested_handle_announcement nested_handle_bootstrap nested_bootstrap_ack nested_setup nested_setup_ack nested_teardown
      split: option.split)

lemma nested_disconnect_peer:
  assumes "snek_inv own r" and "ports_wf r" and "peer \<noteq> own"
  shows "nested (Suc 0) (disconnect_peer_locks E r peer)"
  unfolding disconnect_peer_locks_def
  using nested_disconnect [OF assms]
  by (auto intro!: nesting nested_bootstrap_now nested_reparent_now split: prod.split option.split)

lemma nested_accept: "nested (Suc 0) (accept_locks E r p u d ann)"
  unfolding accept_locks_def Let_def by (intro nesting nested_add_peer nested_handle_announcement) auto

lemma nested_connect: "nested (Suc 0) (connect_locks E r u d first)"
  unfolding connect_locks_def Let_def
  by (auto intro!: nesting nested_parts nested_accept split: option.split sum.split frame.split)

lemma nested_disconnect_all:
  "snek_inv own r \<Longrightarrow> ports_wf r \<Longrightarrow> own \<notin> set ps \<Longrightarrow> nested (Suc 0) (disconnect_all_locks E ps r)"
proof (induction ps arbitrary: r)
  case (Cons p ps)
  have "snek_inv own (after (disconnect_peer E p) r)" "ports_wf (after (disconnect_peer E p) r)"
    using Cons.prems unfolding after_def
    by (auto intro: preservesD [OF snek_router.preserves_disconnect_peer [OF refl]] preservesD [OF ports_router.preserves_disconnect_peer [OF refl]])
  then show ?case
    using Cons by (auto intro!: nesting nested_disconnect_peer)
qed (simp add: nested_Nil)

lemma nested_stop:
  assumes "snek_inv own r" and "ports_wf r" and "own \<notin> set (peers r)"
  shows "nested (Suc 0) (stop_locks E r)"
proof -
  have "snek_inv own (r\<lparr>running := False\<rparr>)" "ports_wf (r\<lparr>running := False\<rparr>)"
    using assms by (simp_all add: snek_inv_def ports_wf_def)
  then show ?thesis
    unfolding stop_locks_def using assms(3) by (auto intro!: nesting nested_disconnect_all)
qed

text \<open>
  What may be locked without leaving the order: all frames but setup ACKs that complete a
  handshake, connecting, stopping, the disconnection of a peer other than the node itself, the
  maintenance, and all that is spawned, in any sequence. Other tasks can change what a handler
  reads between two of its guards, so the parts that nest guards and single guards are also
  ordered on their own, each on a state of its own.
\<close>

inductive ordered_handler :: "lock_op list \<Rightarrow> bool" where
  no_handler: "ordered_handler []"
| then_handler: "ordered_handler a \<Longrightarrow> ordered_handler b \<Longrightarrow> ordered_handler (a @ b)"
| frame_handler: "completes_nothing r frame \<Longrightarrow> ordered_handler (handle_frame_locks E r frame from)"
| disconnect_handler: "snek_inv own r \<Longrightarrow> ports_wf r \<Longrightarrow> peer \<noteq> own \<Longrightarrow> ordered_handler (disconnect_peer_locks E r peer)"
| connect_handler: "ordered_handler (connect_locks E r u d first)"
| start_handler: "ordered_handler start_locks"
| stop_handler: "snek_inv own r \<Longrightarrow> ports_wf r \<Longrightarrow> own \<notin> set (peers r) \<Longrightarrow> ordered_handler (stop_locks E r)"
| tree_tick_handler: "ordered_handler (tree_tick_locks r)"
| snek_tick_handler: "ordered_handler (snek_tick_locks E r)"
| reparent_task: "ordered_handler (reparent_now_locks E r)"
| teardown_task: "ordered_handler (run_teardown_locks r from path_key path_id)"
| polling: "ordered_handler (poll_peer_locks r peer)"
| single_guard: "l \<noteq> Local_Upload \<Longrightarrow> ordered_handler (brief l m)"
| bootstrap_ack_part: "ordered_handler (bootstrap_ack_locks now r ack)"
| setup_part: "ordered_handler (setup_locks now r from rx next_hop)"
| teardown_part: "ordered_handler teardown_locks"
| detach_part: "snek_inv own r \<Longrightarrow> ports_wf r \<Longrightarrow> peer \<noteq> own \<Longrightarrow> ordered_handler (disconnect_locks r peer)"
| add_peer_part: "ordered_handler (add_peer_locks r peer)"
| table_part: "ordered_handler (guarding Paths Read (table_locks now r bootstrap dest entries best))"
| sending_part: "ordered_handler (send_locks r to)"

lemma nested_ticks: "nested (Suc 0) (tree_tick_locks r)" "nested (Suc 0) (snek_tick_locks E r)"
  unfolding tree_tick_locks_def snek_tick_locks_def
  by (intro nesting nested_maintain_tree nested_maintain_snek; simp)+

lemma nested_paths_table: "nested (Suc 0) (guarding Paths Read (table_locks now r bootstrap dest entries best))"
  by (intro nesting nested_table conjI) auto

lemma ordered_handler_nested: "ordered_handler ops \<Longrightarrow> nested (Suc 0) ops"
proof (induction rule: ordered_handler.induct)
  case (single_guard l m)
  then have "Suc 0 \<le> rank l" by (cases l) simp_all
  then show ?case by (rule nested_brief)
next
  case start_handler
  then show ?case
    unfolding start_locks_def by (intro nesting) simp
qed (auto intro: nesting nested_parts nested_handle_frame nested_disconnect_peer nested_connect nested_stop nested_ticks
    nested_reparent_now nested_run_teardown nested_poll nested_bootstrap_ack nested_setup nested_teardown
    nested_disconnect nested_add_peer nested_paths_table)

inductive ordered_task :: "lock_op list \<Rightarrow> bool" where
  handler_task: "ordered_handler ops \<Longrightarrow> ordered_task ops"
| local_task: "\<forall>ops \<in> set handlers. ordered_handler ops \<Longrightarrow> ordered_task (local_loop_locks handlers)"

lemma ordered_task_nested: "ordered_task ops \<Longrightarrow> nested 0 ops"
proof (induction rule: ordered_task.induct)
  case (handler_task ops)
  then show ?case
    using ordered_handler_nested nested_mono by blast
next
  case (local_task handlers)
  then have "nested (Suc 0) ops" if "ops \<in> set (map (\<lambda>ops. brief Running Read @ ops) handlers)" for ops
    using that by (auto intro!: ordered_handler_nested ordered_handler.then_handler ordered_handler.single_guard)
  then show ?case
    unfolding local_loop_locks_def by (intro nesting conjI) auto
qed

section \<open>Threads that keep the order finish\<close>

definition all_ordered :: "thread list \<Rightarrow> bool" where
  "all_ordered ts \<longleftrightarrow> (\<forall>t \<in> set ts. keeps_order (fst t) (snd t))"

definition work_left :: "thread list \<Rightarrow> nat" where
  "work_left ts = sum_list (map (length \<circ> fst) ts)"

lemma work_left_update:
  assumes "i < length ts" and "fst (ts ! i) = x # ops"
  shows "work_left ts = Suc (work_left (ts[i := (ops, gs)]))"
proof -
  have "work_left ts = work_left (take i ts @ ts ! i # drop (Suc i) ts)"
    using id_take_nth_drop [OF assms(1)] by simp
  then show ?thesis
    using assms by (simp add: work_left_def upd_conv_take_nth_drop)
qed

lemma lock_step_work: "lock_step fair ts ts' \<Longrightarrow> work_left ts = Suc (work_left ts')"
  by (erule lock_stepE) (simp_all add: work_left_update)

lemma all_orderedD: "all_ordered ts \<Longrightarrow> i < length ts \<Longrightarrow> ts ! i = (ops, gs) \<Longrightarrow> keeps_order ops gs"
  unfolding all_ordered_def by (metis fst_conv nth_mem snd_conv)

lemma lock_step_ordered:
  assumes "lock_step fair ts ts'" and ts: "all_ordered ts"
  shows "all_ordered ts'"
proof -
  have update: "keeps_order ops gs \<Longrightarrow> all_ordered (ts[i := (ops, gs)])" for i ops gs
    using ts set_update_subset_insert [of ts i "(ops, gs)"] by (auto simp: all_ordered_def)
  from assms(1) show ?thesis
    by cases (auto intro!: update dest: all_orderedD [OF ts])
qed

text \<open>
  Of the locks that are waited for take the highest. Whoever holds it waits for a higher one or
  can release, so it is free; then one of those who wait for it can have it.
\<close>

lemma ordered_progress:
  assumes ts: "all_ordered ts" and "\<not> finished ts"
  shows "\<exists>ts'. lock_step fair ts ts'"
proof (rule ccontr)
  assume stuck: "\<nexists>ts'. lock_step fair ts ts'"
  have refused: "\<not> granted fair ts l m" if t: "t \<in> set ts" and w: "wants t l m" for t l m
  proof
    assume "granted fair ts l m"
    moreover obtain i where "i < length ts" "ts ! i = t"
      using t unfolding in_set_conv_nth by blast
    ultimately show False
      using w stuck lock_step.acquires [of i ts l m]
      by (cases "(t, l, m)" rule: wants.cases) auto
  qed
  have waits: "\<exists>l m. wants t l m" if t: "t \<in> set ts" and todo: "fst t \<noteq> []" for t
  proof -
    obtain i where i: "i < length ts" "ts ! i = t"
      using t unfolding in_set_conv_nth by blast
    obtain x ops gs where x: "t = (x # ops, gs)"
      using todo by (cases t; cases "fst t") auto
    show ?thesis
      using i stuck lock_step.releases [of i ts] by (cases x) (auto simp: x)
  qed
  have above: "rank (fst g) < rank l" if "t \<in> set ts" "g \<in> set (snd t)" "wants t l m" for t g l m
    using ts that by (cases "(t, l, m)" rule: wants.cases) (auto simp: all_ordered_def)
  let ?ranks = "{rank l | t l m. t \<in> set ts \<and> wants t l m}"
  have "?ranks \<subseteq> {..15}"
    using rank_le by auto
  then have finite: "finite ?ranks"
    using finite_subset by blast
  moreover have "?ranks \<noteq> {}"
    using assms(2) waits unfolding finished_def by blast
  ultimately obtain t l m where t: "t \<in> set ts" "wants t l m" and max: "rank l = Max ?ranks"
    using Max_in [of ?ranks] by auto
  have highest: "rank l' \<le> rank l" if "t' \<in> set ts" "wants t' l' m'" for t' l' m'
  proof -
    have "rank l' \<in> ?ranks" using that by blast
    then show ?thesis
      unfolding max by (rule Max_ge [OF finite])
  qed
  have free: "fst g \<noteq> l" if t': "t' \<in> set ts" and g: "g \<in> set (snd t')" for t' g
  proof -
    have "fst t' \<noteq> []"
      using ts t' g by (auto simp: all_ordered_def)
    then obtain l' m' where "wants t' l' m'"
      using waits t' by blast
    then show ?thesis
      using above [OF t' g] highest [OF t'] by (metis leD)
  qed
  then have "\<not> held_against ts l m'" for m'
    by (auto simp: held_against_def conflicts_def)
  then have "fair \<and> m = Read \<and> (\<exists>t' \<in> set ts. wants t' l Write)"
    using refused [OF t] by (auto simp: granted_def)
  moreover have "granted fair ts l Write"
    using \<open>\<And>m'. \<not> held_against ts l m'\<close> by (simp add: granted_def)
  ultimately show False
    using refused by blast
qed

lemma launch_ordered: "\<forall>ops \<in> set progs. ordered_task ops \<Longrightarrow> all_ordered (launch progs)"
  by (auto simp: all_ordered_def launch_def intro: nested_start ordered_task_nested)

lemma lock_run_ordered:
  "(lock_step fair ^^ n) ts ts' \<Longrightarrow> all_ordered ts \<Longrightarrow> all_ordered ts' \<and> n + work_left ts' = work_left ts"
proof (induction n arbitrary: ts')
  case (Suc n)
  then obtain b where "(lock_step fair ^^ n) ts b" "lock_step fair b ts'"
    by auto
  then show ?case
    using Suc.IH [of b] Suc.prems(2) lock_step_ordered [of fair b ts'] lock_step_work [of fair b ts'] by simp
qed simp

lemma ordered_run_completes: "all_ordered ts \<Longrightarrow> \<exists>ts'. lock_steps fair ts ts' \<and> finished ts'"
proof (induction "work_left ts" arbitrary: ts rule: less_induct)
  case less
  show ?case
  proof (cases "finished ts")
    case False
    then obtain ts' where step: "lock_step fair ts ts'"
      using ordered_progress less.prems by blast
    then obtain ts'' where "lock_steps fair ts' ts''" "finished ts''"
      using less lock_step_work lock_step_ordered by (metis lessI)
    with step show ?thesis
      by (meson converse_rtranclp_into_rtranclp)
  qed blast
qed

text \<open>
  C14: tasks that keep the order finish. Any number of tasks, each handling frames other than
  setup ACKs that complete a handshake, connecting, disconnecting peers other than the node
  itself, starting, stopping, maintaining tree and snake, re-parenting, tearing down paths or
  polling peers, or running parts of all this that nest guards or hold one, and the loop of the
  local client over all these, in any interleaving and on whatever states they find: no reachable
  configuration is a deadlock, with or without queueing behind writers; every run is at most as
  long as the operations of all tasks together; and every run can be continued until all have
  finished.
\<close>

theorem ordered_handlers_finish:
  assumes "\<forall>ops \<in> set progs. ordered_task ops" and "(lock_step fair ^^ n) (launch progs) ts"
  shows "\<not> deadlocked fair ts \<and> n + work_left ts = sum_list (map length progs) \<and>
    (\<exists>ts'. lock_steps fair ts ts' \<and> finished ts')"
proof -
  have "all_ordered ts" "n + work_left ts = work_left (launch progs)"
    using lock_run_ordered [OF assms(2) launch_ordered [OF assms(1)]] by auto
  then show ?thesis
    using ordered_progress ordered_run_completes
    by (auto simp: deadlocked_def work_left_def launch_def comp_def)
qed

section \<open>Handlers that do not\<close>

lemma activate_other_locks:
  "k \<noteq> Snek_Path_Index (sa_destination_key rx) (sa_path_id rx) \<Longrightarrow> activate_locks r from rx k e = []"
  by (cases k) (auto simp: activate_locks_def)

lemma concat_indexed:
  assumes "distinct (map fst es)" and "(i, e) \<in> set es" and "\<And>k v. k \<noteq> i \<Longrightarrow> f (k, v) = []"
  shows "concat (map f es) = f (i, e)"
  using assms(1,2)
proof (induction es)
  case (Cons x es)
  have none: "concat (map f xs) = []" if "i \<notin> set (map fst xs)" for xs
    using that assms(3) by (induction xs) auto
  show ?case
    using Cons none [of es] assms(3) by (cases x; cases "fst x = i") (auto simp: rev_image_eqI)
qed simp

text \<open>The setup ACK that completes a handshake: it is for the entry of the candidate.\<close>

definition completes_handshake :: "router_state \<Rightarrow> port \<Rightarrow> snek_setup_ack \<Rightarrow> bool" where
  "completes_handshake r from rx \<longleftrightarrow>
     (\<exists>e. hm_get (paths r) (Snek_Path_Index (sa_destination_key rx) (sa_path_id rx)) = Some e \<and>
        \<not> path_active e \<and> path_source e = 0 \<and> from = path_destination e \<and>
        candidate r = Some (e\<lparr>path_active := True\<rparr>))"

lemma completing_locks:
  assumes "hm_wf (paths r)" and "completes_handshake r from rx"
  shows "setup_ack_locks r from rx = guarding Paths Write (guarding Candidate Write (brief Ascending Write))"
proof -
  obtain e where e: "hm_get (paths r) (Snek_Path_Index (sa_destination_key rx) (sa_path_id rx)) = Some e"
    and "\<not> path_active e" "path_source e = 0" "from = path_destination e" "candidate r = Some (e\<lparr>path_active := True\<rparr>)"
    using assms(2) by (auto simp: completes_handshake_def)
  then have "activate_locks r from rx (Snek_Path_Index (sa_destination_key rx) (sa_path_id rx)) e =
      guarding Candidate Write (brief Ascending Write)"
    by (simp add: activate_locks_def)
  then show ?thesis
    using concat_indexed [of "hm_entries (paths r)" _ e "\<lambda>(k, e). activate_locks r from rx k e"]
      hm_get_in_entries [OF e] assms(1) activate_other_locks
    by (simp add: setup_ack_locks_def hm_wf_def hm_entries_def)
qed

text \<open>Blocked for good: whatever the other threads do, the thread never gets what it waits for.\<close>

definition blocked_for_good :: "bool \<Rightarrow> thread list \<Rightarrow> nat \<Rightarrow> bool" where
  "blocked_for_good fair ts i \<longleftrightarrow>
     i < length ts \<and> fst (ts ! i) \<noteq> [] \<and> (\<forall>ts'. lock_steps fair ts ts' \<longrightarrow> ts' ! i = ts ! i)"

lemma lock_step_waiting:
  "lock_step fair u v \<Longrightarrow> i < length u \<Longrightarrow> u ! i = (Acquire l m # ops, gs) \<Longrightarrow> \<not> granted fair u l m \<Longrightarrow>
    length v = length u \<and> v ! i = u ! i"
  by (erule lock_stepE) (auto simp: nth_list_update)

text \<open>Two threads that hold what the other waits for are; so is one that waits for itself.\<close>

lemma blocked_pair:
  assumes "i < length ts" and "j < length ts"
    and i: "ts ! i = (Acquire l m # a, gs)" and j: "ts ! j = (Acquire l' m' # b, hs)"
    and ij: "\<exists>g \<in> set hs. conflicts l m g" and ji: "\<exists>g \<in> set gs. conflicts l' m' g"
  shows "blocked_for_good fair ts i \<and> blocked_for_good fair ts j"
proof -
  have same: "length ts' = length ts \<and> ts' ! i = ts ! i \<and> ts' ! j = ts ! j" if "lock_steps fair ts ts'" for ts'
    using that
  proof induction
    case (step u v)
    have u: "u ! i = (Acquire l m # a, gs)" "u ! j = (Acquire l' m' # b, hs)" "i < length u" "j < length u"
      using step.IH assms(1,2) i j by simp_all
    then have "(Acquire l m # a, gs) \<in> set u" "(Acquire l' m' # b, hs) \<in> set u"
      using nth_mem by metis+
    then have "\<not> granted fair u l m" "\<not> granted fair u l' m'"
      using ij ji by (force simp: granted_def held_against_def)+
    then have "length v = length u" "v ! i = u ! i" "v ! j = u ! j"
      using lock_step_waiting [OF step.hyps(2)] u by blast+
    then show ?case
      using step.IH by simp
  qed simp
  moreover have "fst (ts ! i) \<noteq> []" "fst (ts ! j) \<noteq> []"
    using i j by simp_all
  ultimately show ?thesis
    using assms(1,2) unfolding blocked_for_good_def by blast
qed

lemma first_acquires:
  "granted fair ((Acquire l m # ops, gs) # ts) l m \<Longrightarrow> lock_steps fair ((ops, (l, m) # gs) # ts) ts' \<Longrightarrow>
    lock_steps fair ((Acquire l m # ops, gs) # ts) ts'"
  using lock_step.acquires [of 0 "(Acquire l m # ops, gs) # ts"] by (auto intro: converse_rtranclp_into_rtranclp)

lemma first_releases:
  "lock_steps fair ((ops, remove1 (l, m) gs) # ts) ts' \<Longrightarrow> lock_steps fair ((Release l m # ops, gs) # ts) ts'"
  using lock_step.releases [of 0 "(Release l m # ops, gs) # ts"] by (auto intro: converse_rtranclp_into_rtranclp)

lemma second_acquires:
  "granted fair [t, (Acquire l m # ops, gs)] l m \<Longrightarrow> lock_steps fair [t, (ops, (l, m) # gs)] ts' \<Longrightarrow>
    lock_steps fair [t, (Acquire l m # ops, gs)] ts'"
  using lock_step.acquires [of 1 "[t, (Acquire l m # ops, gs)]"] by (auto intro: converse_rtranclp_into_rtranclp)

lemmas run_locks = granted_def held_against_def conflicts_def

text \<open>
  C15: setup ACKs can deadlock. When a task handles the setup ACK that completes a handshake while
  another tears down a path or handles a bootstrap ACK, both can be blocked for good, whatever
  other tasks there are: the first keeps the path table and waits for the ascending path, the
  second keeps the ascending path and waits for the path table.
\<close>

theorem setup_ack_deadlocks:
  assumes "hm_wf (paths r)" and "completes_handshake r from rx"
    and "other = teardown_locks \<or> other = bootstrap_ack_locks now r' ack"
  shows "\<exists>ts. lock_steps fair (launch [setup_ack_locks r from rx, other @ rest]) ts \<and>
    (\<forall>tasks. blocked_for_good fair (ts @ tasks) 0 \<and> blocked_for_good fair (ts @ tasks) 1)"
proof -
  have first: "setup_ack_locks r from rx = Acquire Paths Write # Acquire Candidate Write # Acquire Ascending Write #
      [Release Ascending Write, Release Candidate Write, Release Paths Write]"
    by (simp add: completing_locks [OF assms(1,2)] guarding_def brief_def)
  obtain ops gs where run: "lock_steps fair (launch [setup_ack_locks r from rx, other @ rest])
      [(setup_ack_locks r from rx, []), (Acquire Paths Write # ops, gs)]"
    and gs: "fst ` set gs \<subseteq> {Ascending, Descending}" "\<exists>m. (Ascending, m) \<in> set gs"
  proof (rule disjE [OF assms(3)])
    assume "other = teardown_locks"
    then obtain ops where "other @ rest = Acquire Ascending Write # Acquire Descending Write # Acquire Paths Write # ops"
      by (simp add: teardown_locks_def guarding_def brief_def)
    then have "lock_steps fair (launch [setup_ack_locks r from rx, other @ rest])
        [(setup_ack_locks r from rx, []), (Acquire Paths Write # ops, [(Descending, Write), (Ascending, Write)])]"
      by (auto simp: launch_def run_locks first intro!: second_acquires)
    then show ?thesis by (rule that) auto
  next
    assume "other = bootstrap_ack_locks now r' ack"
    then obtain ops where "other @ rest = Acquire Ascending Read # Acquire Paths Write # ops"
      by (simp add: bootstrap_ack_locks_def guarding_def)
    then have "lock_steps fair (launch [setup_ack_locks r from rx, other @ rest])
        [(setup_ack_locks r from rx, []), (Acquire Paths Write # ops, [(Ascending, Read)])]"
      by (auto simp: launch_def run_locks first intro!: second_acquires)
    then show ?thesis by (rule that) auto
  qed
  let ?ts = "[([Acquire Ascending Write, Release Ascending Write, Release Candidate Write, Release Paths Write],
       [(Candidate, Write), (Paths, Write)]), (Acquire Paths Write # ops, gs)]"
  have "lock_steps fair [(setup_ack_locks r from rx, []), (Acquire Paths Write # ops, gs)] ?ts"
    using gs(1) unfolding first
    by (intro first_acquires rtranclp.rtrancl_refl) (auto simp: run_locks)
  with run have "lock_steps fair (launch [setup_ack_locks r from rx, other @ rest]) ?ts"
    by (rule rtranclp_trans)
  moreover have "blocked_for_good fair (?ts @ tasks) 0 \<and> blocked_for_good fair (?ts @ tasks) 1" for tasks
    by (rule blocked_pair) (use gs(2) in \<open>force simp: conflicts_def\<close>)+
  ultimately show ?thesis
    by blast
qed

text \<open>
  C27: disconnecting from oneself deadlocks. When a node with a descending path and no ascending
  path is told to disconnect the peer with its own key, the call is blocked for good, whatever
  other tasks there are: it finds the port zero, where the descending path ends, and tears that
  path down while it still has its read guard of the ascending path.
\<close>

theorem disconnect_self_deadlocks:
  assumes "snek_inv own r" and "ascending_path r = None" and "descending_path r = Some desc"
  shows "\<exists>ts. lock_steps fair (launch [disconnect_locks r own]) ts \<and>
    (\<forall>tasks. blocked_for_good fair (ts @ tasks) 0)"
proof -
  have "port_of r own = Some 0" "port_locks r own = []" "path_destination desc = 0"
    using assms by (simp_all add: snek_inv_def down_path_def port_of_def port_locks_def)
  then obtain ops where "disconnect_locks r own = Acquire Paths Read # Release Paths Read # Acquire Ascending Read #
      Acquire Descending Read # Release Descending Read # Acquire Ascending Write # ops"
    using assms(2,3)
    by (simp add: disconnect_locks_def disconnect_descending_locks_def teardown_locks_def guarding_def brief_def)
  moreover have "blocked_for_good fair ([(Acquire Ascending Write # ops, [(Ascending, Read)])] @ tasks) 0" for tasks
    using blocked_pair [of 0 "(Acquire Ascending Write # ops, [(Ascending, Read)]) # tasks" 0]
    by (simp add: conflicts_def)
  moreover have "lock_steps fair (launch [Acquire Paths Read # Release Paths Read # Acquire Ascending Read #
      Acquire Descending Read # Release Descending Read # Acquire Ascending Write # ops])
      [(Acquire Ascending Write # ops, [(Ascending, Read)])]"
    unfolding launch_def list.map
    by (rule first_acquires, simp add: run_locks, rule first_releases, rule first_acquires, simp add: run_locks,
        rule first_acquires, simp add: run_locks, rule first_releases, simp)
  ultimately show ?thesis
    by (metis append_Cons append_Nil)
qed

section \<open>Examples\<close>

text \<open>The example router after it has sent a setup, and the ACK it waits for.\<close>

definition example_waiting :: router_state where
  "example_waiting = snd (handle_bootstrap_ack example_env example_ack example_snek)"

definition example_setup_ack :: snek_setup_ack where
  "example_setup_ack = \<lparr>sa_root = Root (repeat_byte 9) 1, sa_destination_key = repeat_byte 5, sa_path_id = 33\<rparr>"

lemma example_completes:
  "completes_handshake example_waiting 1 example_setup_ack"
  "hm_wf (paths example_waiting)"
proof -
  have "bootstrap_ack_update (env_now example_env) example_snek example_ack = Some True"
    by (simp add: bootstrap_ack_update_def example_ack_def)
  moreover have "next_tree_hop example_snek (ba_source_coordinates example_ack) (public_key example_snek) =
      Some (Some (repeat_byte 9))"
    by (simp add: example_ack_def next_tree_hop_def distance_to_def get_common_prefix_def Let_def peer_coords_eq
        is_better_next_tree_hop_candidate_def)
  ultimately have run: "handle_bootstrap_ack example_env example_ack example_snek = (Some (), example_snek\<lparr>
      sent := sent example_snek @ frames_to example_env example_snek (repeat_byte 9) (SnekSetup (own_setup example_snek example_ack)),
      spawned := spawned example_snek @ replaced_paths example_snek (ba_source_key example_ack),
      paths := hm_insert (path_index (own_entry example_env (repeat_byte 5) 1 example_ack))
        (own_entry example_env (repeat_byte 5) 1 example_ack) (paths example_snek),
      candidate := Some ((own_entry example_env (repeat_byte 5) 1 example_ack)\<lparr>path_active := True\<rparr>)\<rparr>)"
    using handle_bootstrap_ack_run [of example_env example_snek example_ack "repeat_byte 9" 1] by simp
  show "completes_handshake example_waiting 1 example_setup_ack"
    unfolding example_waiting_def run by (simp add: example_setup_ack_def completes_handshake_def own_entry_def) (simp add: example_ack_def)
  show "hm_wf (paths example_waiting)"
    unfolding example_waiting_def run by (simp add: hm_wf_def own_entry_def hm_insert_def)
qed

theorem setup_ack_deadlocks_witness:
  "\<exists>ts. lock_steps True (launch [setup_ack_locks example_waiting 1 example_setup_ack, teardown_locks]) ts \<and>
     blocked_for_good True ts 0 \<and> blocked_for_good True ts 1"
  using setup_ack_deadlocks [OF example_completes(2,1), of teardown_locks 100 example_snek example_ack True "[]"]
  by simp (metis append.right_neutral)

theorem disconnect_self_deadlocks_witness:
  "\<exists>ts. lock_steps True (launch [disconnect_locks example_snek (repeat_byte 5)]) ts \<and> blocked_for_good True ts 0"
  using disconnect_self_deadlocks [OF example_snek_inv, of example_down True] by simp (metis append.right_neutral)

theorem ordered_handlers_finish_witness:
  "\<exists>ts. lock_steps True (launch [teardown_locks, bootstrap_ack_locks 100 example_snek example_ack,
      setup_locks 100 example_snek 2 (example_setup 4 5) 0]) ts \<and> finished ts"
proof -
  have "\<forall>ops \<in> set [teardown_locks, bootstrap_ack_locks 100 example_snek example_ack,
      setup_locks 100 example_snek 2 (example_setup 4 5) 0]. ordered_task ops"
    by (auto intro: ordered_handler.intros handler_task)
  from ordered_handlers_finish [OF this, of 0 True] show ?thesis
    by simp
qed

end
