(* ===== verification/Lock_Safety.thy ===== *)
theory Lock_Safety
  imports Lock_Traces
begin

text \<open>
  The operations of the router change a field only while they hold its lock for writing: each of
  them, on any state, changes no more than the fields whose locks its list in \<open>Lock_Traces\<close>
  acquires to write.
\<close>

section \<open>What an operation changes\<close>

fun differs :: "lock \<Rightarrow> router_state \<Rightarrow> router_state \<Rightarrow> bool" where
  "differs Running r r' \<longleftrightarrow> running r' \<noteq> running r"
| "differs Upload r r' \<longleftrightarrow> upload_connections r' \<noteq> upload_connections r"
| "differs Download r r' \<longleftrightarrow> download_connections r' \<noteq> download_connections r"
| "differs Ports r r' \<longleftrightarrow> ports r' \<noteq> ports r"
| "differs Parent r r' \<longleftrightarrow> parent r' \<noteq> parent r"
| "differs Announcements r r' \<longleftrightarrow> announcements r' \<noteq> announcements r"
| "differs Sequence r r' \<longleftrightarrow> sequence r' \<noteq> sequence r"
| "differs Ordering r r' \<longleftrightarrow> ordering r' \<noteq> ordering r"
| "differs Reparent_Timer r r' \<longleftrightarrow> reparent_timer r' \<noteq> reparent_timer r"
| "differs Ascending r r' \<longleftrightarrow> ascending_path r' \<noteq> ascending_path r"
| "differs Descending r r' \<longleftrightarrow> descending_path r' \<noteq> descending_path r"
| "differs Paths r r' \<longleftrightarrow> paths r' \<noteq> paths r"
| "differs Candidate r r' \<longleftrightarrow> candidate r' \<noteq> candidate r"
| "differs _ r r' \<longleftrightarrow> False"

definition only_changes :: "lock set \<Rightarrow> router_state \<Rightarrow> router_state \<Rightarrow> bool" where
  "only_changes L r r' \<longleftrightarrow>
     private_key r' = private_key r \<and> public_key r' = public_key r \<and> (\<forall>l. differs l r r' \<longrightarrow> l \<in> L)"

lemma all_locks:
  "(\<forall>l. differs l r r' \<longrightarrow> l \<in> L) \<longleftrightarrow>
     (\<forall>l \<in> {Running, Upload, Download, Ports, Parent, Announcements, Sequence, Ordering, Reparent_Timer,
        Ascending, Descending, Paths, Candidate}. differs l r r' \<longrightarrow> l \<in> L)"
proof (intro iffI allI)
  fix l
  assume "\<forall>l \<in> {Running, Upload, Download, Ports, Parent, Announcements, Sequence, Ordering, Reparent_Timer,
    Ascending, Descending, Paths, Candidate}. differs l r r' \<longrightarrow> l \<in> L"
  then show "differs l r r' \<longrightarrow> l \<in> L"
    by (cases l) simp_all
qed simp

lemmas only_changes_iff = only_changes_def [unfolded all_locks]

lemma differs_step: "differs l r t \<Longrightarrow> differs l r s \<or> differs l s t"
  by (cases l) auto

definition write_locked :: "lock_op list \<Rightarrow> lock set" where
  "write_locked ops = {l. Acquire l Write \<in> set ops}"

text \<open>A change of the state from \<open>r\<close> to \<open>r'\<close> that the list \<open>ops\<close> covers.\<close>

definition covers :: "lock_op list \<Rightarrow> router_state \<Rightarrow> router_state \<Rightarrow> bool" where
  "covers ops r r' \<longleftrightarrow> only_changes (write_locked ops) r r'"

lemma write_locked_simps [simp]:
  "write_locked [] = {}" "write_locked (a @ b) = write_locked a \<union> write_locked b"
  "write_locked (Acquire l Write # ops) = insert l (write_locked ops)"
  "write_locked (Acquire l Read # ops) = write_locked ops"
  "write_locked (Release l m # ops) = write_locked ops"
  "write_locked (guarding l Write ops) = insert l (write_locked ops)"
  "write_locked (guarding l Read ops) = write_locked ops"
  "write_locked (brief l Write) = {l}" "write_locked (brief l Read) = {}"
  by (auto simp: write_locked_def brief_def guarding_def)

lemma only_changes_refl [simp]: "only_changes L r r"
  by (simp add: only_changes_iff)

lemma only_changes_trans:
  "only_changes L r s \<Longrightarrow> only_changes L s t \<Longrightarrow> only_changes L r t"
  unfolding only_changes_def using differs_step by metis

lemma only_changes_mono: "only_changes L r r' \<Longrightarrow> L \<subseteq> M \<Longrightarrow> only_changes M r r'"
  unfolding only_changes_def by blast

lemma covers_append: "covers a r s \<Longrightarrow> covers b s t \<Longrightarrow> covers (a @ b) r t"
  unfolding covers_def
  by (rule only_changes_trans) (auto elim: only_changes_mono)

lemma covers_first: "covers a r s \<Longrightarrow> covers (a @ b) r s"
  and covers_second: "covers b r s \<Longrightarrow> covers (a @ b) r s"
  unfolding covers_def by (auto elim: only_changes_mono)

lemma covers_refl [simp]: "covers ops r r"
  by (simp add: covers_def)

section \<open>Operations that change no field\<close>

interpretation quiet: effect_insensitive "only_changes L r0" for L r0
  by unfold_locales (simp_all add: only_changes_iff)

text \<open>What every invariant of this form survives starts and ends with the same fields.\<close>

lemma covers_preserved: "preserves (only_changes (write_locked ops) r) m \<Longrightarrow> covers ops r (snd (m r))"
  unfolding covers_def by (erule preservesD) simp

lemma covers_quiet: "(\<And>L. preserves (only_changes L r) m) \<Longrightarrow> covers ops r (snd (m r))"
  by (rule covers_preserved)

lemma covers_effects [simp]:
  "covers ops r (s\<lparr>sent := y0\<rparr>) \<longleftrightarrow> covers ops r s"
  "covers ops r (s\<lparr>delivered := y1\<rparr>) \<longleftrightarrow> covers ops r s"
  "covers ops r (s\<lparr>spawned := y2\<rparr>) \<longleftrightarrow> covers ops r s"
  by (simp_all add: covers_def only_changes_iff)

text \<open>A field may be set whose lock is taken to write.\<close>

lemma covers_fields [simp]:
  "Running \<in> write_locked ops \<Longrightarrow> covers ops r (s\<lparr>running := x0\<rparr>) \<longleftrightarrow> covers ops r s"
  "Upload \<in> write_locked ops \<Longrightarrow> covers ops r (s\<lparr>upload_connections := x1\<rparr>) \<longleftrightarrow> covers ops r s"
  "Download \<in> write_locked ops \<Longrightarrow> covers ops r (s\<lparr>download_connections := x2\<rparr>) \<longleftrightarrow> covers ops r s"
  "Ports \<in> write_locked ops \<Longrightarrow> covers ops r (s\<lparr>ports := x3\<rparr>) \<longleftrightarrow> covers ops r s"
  "Parent \<in> write_locked ops \<Longrightarrow> covers ops r (s\<lparr>parent := x4\<rparr>) \<longleftrightarrow> covers ops r s"
  "Announcements \<in> write_locked ops \<Longrightarrow> covers ops r (s\<lparr>announcements := x5\<rparr>) \<longleftrightarrow> covers ops r s"
  "Sequence \<in> write_locked ops \<Longrightarrow> covers ops r (s\<lparr>sequence := x6\<rparr>) \<longleftrightarrow> covers ops r s"
  "Ordering \<in> write_locked ops \<Longrightarrow> covers ops r (s\<lparr>ordering := x7\<rparr>) \<longleftrightarrow> covers ops r s"
  "Reparent_Timer \<in> write_locked ops \<Longrightarrow> covers ops r (s\<lparr>reparent_timer := x8\<rparr>) \<longleftrightarrow> covers ops r s"
  "Ascending \<in> write_locked ops \<Longrightarrow> covers ops r (s\<lparr>ascending_path := x9\<rparr>) \<longleftrightarrow> covers ops r s"
  "Descending \<in> write_locked ops \<Longrightarrow> covers ops r (s\<lparr>descending_path := x10\<rparr>) \<longleftrightarrow> covers ops r s"
  "Paths \<in> write_locked ops \<Longrightarrow> covers ops r (s\<lparr>paths := x11\<rparr>) \<longleftrightarrow> covers ops r s"
  "Candidate \<in> write_locked ops \<Longrightarrow> covers ops r (s\<lparr>candidate := x12\<rparr>) \<longleftrightarrow> covers ops r s"
  by (simp_all add: covers_def only_changes_iff)

lemma covers_announcing [simp]:
  "covers ops r (snd (send_tree_announcement E k a r))"
  by (rule covers_quiet) (intro preserve)

section \<open>The tree\<close>

lemma covers_parent_selection: "covers (parent_selection_locks E r) r (snd (parent_selection E r))"
  by (simp add: parent_selection_run parent_selection_locks_def reclaimed_def after_def become_root_def set_parent_def
      act_defs Let_def split: option.split)

lemma covers_from_parent: "covers (from_parent_locks r a) r (snd (announcement_from_parent E a r))"
  by (simp add: announcement_from_parent_def from_parent_locks_def send_to_all_run select_new_parent_with_wait_def
      become_root_def set_parent_def reparent_def spawn_def act_defs Let_def)

lemma covers_from_other: "covers (from_other_locks r a k) r (snd (announcement_from_other E a k r))"
  by (simp add: announcement_from_other_def from_other_locks_def send_to_all_run
      set_parent_def reparent_def spawn_def act_defs Let_def)

lemma covers_handle_announcement:
  "covers (handle_tree_announcement_locks E r a k) r (snd (handle_tree_announcement E a k r))"
proof (cases "ordering r = - 1")
  case True
  then have "checked_add (ordering r) 1 = None"
    by (simp add: checked_add_max)
  then show ?thesis
    by (simp add: handle_tree_announcement_def next_ordering_def act_defs)
next
  case False
  have stored: "covers (brief Ordering Write @ brief Ordering Read @ brief Announcements Read @
      brief Announcements Write @ brief Reparent_Timer Read @ ops) r (stored E r a k)" for ops
    by (simp add: stored_def)
  have "covers (brief Ordering Write @ brief Ordering Read @ brief Announcements Read @
      brief Announcements Write @ brief Reparent_Timer Read @ brief Parent Read @ ops) r s"
    if "covers ops (stored E r a k) s" for ops s
    using covers_append [OF stored [of "brief Parent Read"] that] by simp
  then show ?thesis
    using False stored [of "[]"] covers_from_parent covers_from_other
    by (cases "is_clean (env_crypto E) a k"; cases "k = parent r")
      (simp_all add: handle_tree_announcement_run handle_tree_announcement_locks_def)
qed

lemma covers_maintain_tree: "covers (maintain_tree_locks r) r (snd (maintain_tree E r))"
  by (cases "sequence r = - 1")
    (simp_all add: checked_add_max maintain_tree_def maintain_tree_locks_def new_tree_announcement_def next_sequence_def
      reparent_def spawn_def send_to_all_run checked_succ act_defs)

section \<open>The snake\<close>

lemma changes_teardown:
  "{Ascending, Descending, Paths} \<subseteq> L \<Longrightarrow> preserves (only_changes L r0) (teardown_path from key path_id)"
  unfolding teardown_path_def Let_def
  by (intro preserve preserves_modify) (simp_all add: only_changes_iff)

lemma covers_run_teardown: "covers (run_teardown_locks r from key path_id) r (snd (run_teardown E from key path_id r))"
  unfolding run_teardown_def Let_def
  by (intro covers_preserved preserve changes_teardown) (simp add: run_teardown_locks_def teardown_locks_def)

lemma covers_handle_teardown: "covers teardown_locks r (snd (handle_teardown from td r))"
  unfolding handle_teardown_def
  by (intro covers_preserved preserve changes_teardown) (simp add: teardown_locks_def)

lemma covers_bootstraps:
  "covers ops r (snd (bootstrap_now E r))" "covers ops r (snd (handle_bootstrap E frame r))"
  "covers ops r (snd (maintain_snek E r))"
  by (rule covers_quiet; intro preserve)+

lemma changes_bootstrap_ack:
  "{Paths, Candidate} \<subseteq> L \<Longrightarrow> preserves (only_changes L r0) (handle_bootstrap_ack E ack)"
  unfolding handle_bootstrap_ack_def Let_def
  by (intro preserve preserves_modify) (simp_all add: only_changes_iff)

lemma covers_handle_bootstrap_ack:
  "covers (bootstrap_ack_locks (env_now E) r ack) r (snd (handle_bootstrap_ack E ack r))"
proof (cases "\<exists>peer. bootstrap_ack_update (env_now E) r ack = Some True \<and>
    next_tree_hop r (ba_source_coordinates ack) (public_key r) = Some (Some peer) \<and> public_key r \<noteq> peer")
  case True
  then show ?thesis
    by (intro covers_preserved changes_bootstrap_ack) (auto simp: bootstrap_ack_locks_def)
next
  case False
  then have "snd (handle_bootstrap_ack E ack r) = r"
    by (auto simp: handle_bootstrap_ack_def act_defs split: option.split)
  then show ?thesis by simp
qed

lemma covers_handle_setup:
  "covers (setup_locks (env_now E) r from rx next_hop) r (snd (handle_setup E from rx next_hop r))"
  unfolding handle_setup_def handle_setup_at_destination_def handle_setup_in_between_def Let_def
  by (intro covers_preserved preserve preserves_modify) (simp_all add: only_changes_iff setup_locks_def)

text \<open>The ACK of a setup takes the candidate at most once, so it is the one it found or none.\<close>

definition changes_ack :: "lock set \<Rightarrow> router_state \<Rightarrow> router_state \<Rightarrow> bool" where
  "changes_ack L r s \<longleftrightarrow> only_changes L r s \<and> (candidate s = candidate r \<or> candidate s = None)"

interpretation ack: effect_insensitive "changes_ack L r" for L r
  by unfold_locales (simp_all add: changes_ack_def only_changes_iff)

lemma changes_activate:
  assumes "write_locked (activate_locks r from rx key entry) \<subseteq> L" and "Paths \<in> L"
  shows "preserves (changes_ack L r) (activate_entry E from rx key entry)"
  using assms unfolding activate_entry_def activate_locks_def Let_def
  by (intro preserve preserves_modify) (auto simp: changes_ack_def only_changes_iff)

lemma covers_handle_setup_ack:
  "covers (setup_ack_locks r from rx) r (snd (handle_setup_ack E from rx r))"
proof -
  let ?L = "write_locked (setup_ack_locks r from rx)"
  have "write_locked (activate_locks r from rx key entry) \<subseteq> ?L" if "(key, entry) \<in> set (hm_entries (paths r))" for key entry
    using that by (force simp: setup_ack_locks_def write_locked_def guarding_def)
  then have "preserves (changes_ack ?L r) (act_for (hm_entries (paths r)) (\<lambda>(key, entry). activate_entry E from rx key entry))"
    by (intro preserve changes_activate) (auto simp: setup_ack_locks_def)
  then have "changes_ack ?L r (snd (act_for (hm_entries (paths r)) (\<lambda>(key, entry). activate_entry E from rx key entry) r))"
    by (rule preservesD) (simp add: changes_ack_def)
  then show ?thesis
    by (simp add: handle_setup_ack_def act_get_def covers_def changes_ack_def)
qed

section \<open>Frames, peers and tasks\<close>

lemma covers_send [simp]: "covers ops r (snd (send E f to r))" "covers ops r (snd (send_to_local E f r))"
  by (rule covers_quiet; intro preserve)+

lemma snd_bind_ret [simp]: "snd (act_bind m (\<lambda>x. act_ret (g x)) r) = snd (m r)"
  by (simp add: act_bind_def act_ret_def split: prod.split option.split)

lemma covers_done_ok: "covers ops r (snd (m r)) \<Longrightarrow> covers ops r (snd (done_ok m r))"
  by (cases "m r"; cases "fst (m r)") (simp_all add: done_ok_def act_seq_def act_bind_def act_ret_def)

lemma covers_handle_frame: "covers (handle_frame_locks E r f from) r (snd (handle_frame E f from r))"
proof (cases f)
  case (SnekBootstrapACK ack)
  then show ?thesis
    by (auto simp: forward_tree_def Let_def act_get_def act_unwrap_def act_panic_def act_ret_def
        intro!: covers_done_ok covers_second covers_handle_bootstrap_ack split: option.split)
next
  case (SnekSetup rx)
  then show ?thesis
    by (auto simp: Let_def act_get_def act_unwrap_def act_panic_def act_ret_def
        intro!: covers_done_ok covers_second covers_handle_setup split: option.split)
next
  case (SnekSetupACK ack)
  then show ?thesis
    by (auto simp: Let_def act_get_def act_unwrap_def act_panic_def act_ret_def
        intro!: covers_done_ok covers_second covers_handle_setup_ack split: option.split)
next
  case (SnekTeardown td)
  then show ?thesis
    by (auto simp: Let_def act_get_def act_unwrap_def act_panic_def
        intro!: covers_done_ok covers_second covers_handle_teardown split: option.split)
qed (auto simp: forward_tree_def Let_def act_get_def act_unwrap_def act_panic_def act_ret_def
    intro!: covers_done_ok covers_handle_announcement covers_bootstraps split: option.split)

lemma changes_disconnect_port:
  "{Ascending, Descending, Paths, Ports} \<subseteq> L \<Longrightarrow> preserves (only_changes L r0) (disconnect_port p)"
  unfolding disconnect_port_def
  by (intro preserve changes_teardown preserves_modify) (auto simp: only_changes_iff)

lemma covers_detach_peer: "covers (disconnect_locks r peer) r (snd (detach_peer peer r))"
proof (cases "port_of r peer")
  case None
  then show ?thesis
    by (simp add: detach_peer_def act_seq_def act_bind_def act_get_def act_ret_def act_modify_def disconnect_locks_def)
next
  case (Some p)
  let ?hit = "\<lambda>path. \<exists>e. path = Some e \<and> path_destination e = p"
  show ?thesis
  proof (cases "?hit (ascending_path r) \<or> ?hit (descending_path r)")
    case True
    then have "{Ascending, Descending, Paths, Ports, Announcements, Upload, Download} \<subseteq> write_locked (disconnect_locks r peer)"
      using Some by (auto simp: disconnect_locks_def disconnect_descending_locks_def teardown_locks_def
          split: option.split)
    then show ?thesis
      unfolding detach_peer_def
      by (intro covers_preserved preserve changes_disconnect_port preserves_modify) (auto simp: only_changes_iff)
  next
    case False
    then have "disconnect_port p r = (Some False, r\<lparr>spawned := spawned r @ port_teardowns r p, ports := hm_remove p (ports r)\<rparr>)"
      unfolding disconnect_port_def act_seq_def act_bind_ret [OF port_teardowns_run]
      by (auto simp: act_bind_def act_get_def act_ret_def act_modify_def split: option.split)
    then show ?thesis
      using Some
      by (simp add: detach_peer_def act_seq_def act_bind_def act_get_def act_ret_def act_modify_def
          disconnect_locks_def disconnect_descending_locks_def split: option.split)
  qed
qed

lemma covers_bind:
  assumes "covers a r (snd (m r))" and "\<And>x s. m r = (Some x, s) \<Longrightarrow> covers b s (snd (f x s))"
  shows "covers (a @ b) r (snd (act_bind m f r))"
proof (cases "m r")
  case (Pair x s)
  then show ?thesis
    using assms by (cases x) (auto simp: act_bind_def intro: covers_first covers_append)
qed

lemma covers_reparent_now: "covers (reparent_now_locks E r) r (snd (reparent_now E r))"
  unfolding reparent_now_def reparent_now_locks_def
  by (rule covers_bind [OF covers_parent_selection]) (auto simp: act_when_def act_ret_def intro: covers_bootstraps)

lemma disconnect_peer_detach:
  "disconnect_peer E peer = act_bind (detach_peer peer) (\<lambda>bootstrap. act_get (\<lambda>r.
     if bootstrap then bootstrap_now E else if parent r = peer then reparent_now E else act_ret ()))"
  by (rule ext)
    (simp add: disconnect_peer_def detach_peer_def reparent_now_def act_defs split: prod.split option.split)

lemma covers_disconnect_peer: "covers (disconnect_peer_locks E r peer) r (snd (disconnect_peer E peer r))"
proof -
  have "covers ops s (snd (act_get (\<lambda>r. if b then bootstrap_now E else if parent r = peer then reparent_now E else act_ret ()) s))"
    if "ops = brief Parent Read @ (if b then bootstrap_now_locks E s else if parent s = peer then reparent_now_locks E s else [])"
    for ops b s
    unfolding that by (auto simp: act_get_def act_ret_def intro: covers_bootstraps covers_reparent_now covers_second)
  note rest = this [OF refl]
  show ?thesis
    unfolding disconnect_peer_detach disconnect_peer_locks_def
    by (rule covers_bind [OF covers_detach_peer]) (use rest in simp)
qed

lemma covers_add_peer: "covers (add_peer_locks r peer) r (snd (add_peer E peer p u d False r))"
  by (simp add: add_peer_def add_peer_locks_def spawn_peer_def spawn_def act_defs)

lemma covers_add_and_announce: "covers (add_and_announce_locks E r peer p) r (snd (add_peer E peer p u d True r))"
proof (cases "hm_contains_key (download_connections r) peer \<or> hm_contains_key (upload_connections r) peer")
  case True
  then show ?thesis
    by (auto simp: add_peer_def act_defs)
next
  case False
  then show ?thesis
    unfolding add_peer_def spawn_peer_def
    by (intro covers_preserved preserve preserves_modify)
      (simp_all add: only_changes_iff add_and_announce_locks_def add_peer_locks_def Let_def)
qed

lemma covers_accept: "covers (accept_locks E r p u d ann) r (snd (accept_peer E p u d ann r))"
proof -
  let ?key = "signing_public_key (last (ann_signatures ann))"
  let ?r1 = "r\<lparr>ports := hm_insert p (Some ?key) (ports r)\<rparr>"
  have "covers (add_peer_locks ?r1 ?key @ handle_tree_announcement_locks E (after (add_peer E ?key p u d False) ?r1) ann ?key)
      ?r1 (snd (act_bind (add_peer E ?key p u d False) (\<lambda>x. act_bind (handle_frame E (TreeAnnouncement ann) ?key)
        (\<lambda>res. act_ret (case res of Inl e \<Rightarrow> Inl e | Inr _ \<Rightarrow> Inr ?key))) ?r1))"
    by (rule covers_bind [OF covers_add_peer]) (auto simp: after_def intro: covers_done_ok covers_handle_announcement)
  then show ?thesis
    using covers_append [of "brief Ports Write" r ?r1]
    by (simp add: accept_peer_def accept_locks_def Let_def act_seq_def act_bind_def act_modify_def act_ret_def)
qed

lemma write_locked_concat [simp]: "write_locked (concat opss) = (\<Union>ops \<in> set opss. write_locked ops)"
  by (auto simp: write_locked_def)

lemma covers_connect: "covers (connect_locks E r u d first) r (snd (connect E u d first r))"
proof (cases "new_port_from (ports r) 1")
  case None
  then show ?thesis
    by (simp add: connect_def get_new_port_def act_defs)
next
  case (Some p)
  let ?r1 = "r\<lparr>ports := hm_insert p None (ports r)\<rparr>"
  have "unat p > 0"
    using new_port_from_Some [OF Some] by (auto simp: unat_gt_0)
  then have port: "covers (concat (replicate (unat p) (brief Ports Write)) @ ops) r ?r1" for ops
    by simp
  have step: "covers (concat (replicate (unat p) (brief Ports Write)) @ a @ ops) r s" if "covers ops ?r1 s" for a ops s
    using covers_append [OF port [of a] that] by simp
  show ?thesis
    using port [of "current_announcement_locks ?r1"] step [OF covers_accept]
    by (auto simp: connect_def act_bind_def get_new_port_run [OF Some] greet_peer_def connect_locks_def Some
        act_get_def act_ret_def Let_def split: option.split sum.split frame.split)
qed

lemma covers_ticks:
  "covers (tree_tick_locks r) r (snd (tree_tick E r))" "covers (snek_tick_locks E r) r (snd (snek_tick E r))"
  by (auto simp: tree_tick_def tree_tick_locks_def snek_tick_def act_get_def act_when_def act_ret_def
      intro: covers_second covers_maintain_tree covers_bootstraps)

lemma covers_disconnect_all: "covers (disconnect_all_locks E ps r) r (snd (act_for ps (disconnect_peer E) r))"
proof (induction ps arbitrary: r)
  case (Cons p ps)
  then show ?case
    by (auto simp: act_seq_def after_def intro!: covers_bind [where m = "disconnect_peer E p"] covers_disconnect_peer)
qed (simp add: act_ret_def)

lemma covers_stop: "covers (stop_locks E r) r (snd (stop E r))"
proof -
  have "covers (brief Running Write) r (r\<lparr>running := False\<rparr>)"
    by simp
  from covers_append [OF this covers_second [where a = "brief Ports Read", OF covers_disconnect_all]] show ?thesis
    by (simp add: stop_def stop_locks_def peers_def act_seq_def act_bind_def act_modify_def act_get_def)
qed

lemma covers_peer_loop: "covers (peer_loop_locks E r item peer) r (snd (peer_loop E item peer r))"
proof (cases "running r")
  case False
  then show ?thesis
    by (simp add: peer_loop_def peer_loop_locks_def act_get_def covers_second covers_disconnect_peer)
next
  case True
  have poll: "covers (poll_frame_locks E r item peer) r (snd (poll_peer E peer item r))"
    by (auto simp: poll_peer_def poll_frame_locks_def act_get_def act_ret_def
        intro: covers_second covers_handle_frame split: option.split sum.split)
  show ?thesis
    using True unfolding peer_loop_def peer_loop_locks_def
    by (simp add: act_get_def, intro covers_second [where a = "brief Running Read"] covers_bind poll)
      (auto simp: spawn_def act_modify_def intro: covers_disconnect_peer split: sum.split)
qed

lemma covers_run_task: "covers (run_task_locks E r item t) r (snd (run_task E item t r))"
  by (cases t) (auto simp: set_reparent_timer_def spawn_def act_defs
      intro: covers_run_teardown covers_reparent_now covers_peer_loop)

text \<open>
  C10: no field is changed without its lock. Whatever a router does - start, stop, connect,
  disconnect a peer, handle a frame of the client, maintain the tree or the snake, poll a peer or
  run a task it has spawned - on any state, it changes only fields whose locks it acquires to
  write on the way.
\<close>

theorem writes_are_locked:
  "only_changes (write_locked start_locks) r (snd (start r)) \<and>
   only_changes (write_locked (stop_locks E r)) r (snd (stop E r)) \<and>
   only_changes (write_locked (connect_locks E r u d first)) r (snd (connect E u d first r)) \<and>
   only_changes (write_locked (disconnect_peer_locks E r peer)) r (snd (disconnect_peer E peer r)) \<and>
   only_changes (write_locked (handle_frame_locks E r frame from)) r (snd (handle_frame E frame from r)) \<and>
   only_changes (write_locked (tree_tick_locks r)) r (snd (tree_tick E r)) \<and>
   only_changes (write_locked (snek_tick_locks E r)) r (snd (snek_tick E r)) \<and>
   only_changes (write_locked (run_task_locks E r item t)) r (snd (run_task E item t r))"
  using covers_stop covers_connect covers_disconnect_peer covers_handle_frame covers_ticks covers_run_task
  by (simp add: covers_def start_def start_locks_def act_modify_def only_changes_iff)

end
