(* ===== verification/Router_Tests.thy ===== *)
theory Router_Tests
  imports Router
begin

text \<open>
  The test module of \<open>src/router.rs\<close>, run on the model. Each test is an action on a fresh
  router; an assertion that fails, an \<open>unwrap\<close> of nothing and a wait that never ends make it
  panic. The theorems show that every test passes for every clock and every random number, with
  the order the tests rely on between the public keys of \<open>[1; 32]\<close> and \<open>[2; 32]\<close>.
\<close>

section \<open>The harness\<close>

text \<open>Both ends of the connection are sockets of the same machine: no frame is refused.\<close>

definition test_env :: "crypto \<Rightarrow> system_time \<Rightarrow> u64 \<Rightarrow> env" where
  "test_env C now random =
     \<lparr>env_crypto = C, env_now = now, env_random = random, env_sink_send = (\<lambda>socket f. None),
      env_local_open = True\<rparr>"

type_synonym test = "unit router_act"

definition act_assert :: "bool \<Rightarrow> test" where
  "act_assert b = (if b then act_ret () else act_panic)"

text \<open>A spawned task that panics does not fail the test.\<close>

definition in_background :: "unit router_act \<Rightarrow> test" where
  "in_background m = (\<lambda>r. (Some (), snd (m r)))"

definition passes :: "crypto \<Rightarrow> signing_key \<Rightarrow> test \<Rightarrow> bool" where
  "passes C key t \<longleftrightarrow> fst (t (new_router C key)) = Some ()"

definition get_test_router_with_peer :: "env \<Rightarrow> public_key \<Rightarrow> bool \<Rightarrow> test" where
  "get_test_router_with_peer E peer send_first_announcement =
     act_seq start (add_peer E peer 1 0 0 send_first_announcement)"

text \<open>
  \<open>rd.next()\<close>: the next frame the router has sent to the peer. While there is none the other
  tasks run, here \<open>others\<close>; if there is still none the stream has ended when the router has given
  up the connection, and the wait never ends when it has not.
\<close>

definition received :: "public_key \<Rightarrow> router_state \<Rightarrow> (public_key \<times> frame) list" where
  "received peer r = filter (\<lambda>(k, f). k = peer) (sent r)"

definition take_frame :: "public_key \<Rightarrow> frame option router_act" where
  "take_frame peer = act_get (\<lambda>r.
     case received peer r of
       (k, f) # _ \<Rightarrow> act_seq (act_modify (\<lambda>r. r\<lparr>sent := remove1 (k, f) (sent r)\<rparr>)) (act_ret (Some f))
     | [] \<Rightarrow> if hm_contains_key (upload_connections r) peer then act_panic else act_ret None)"

definition next_frame :: "test \<Rightarrow> public_key \<Rightarrow> frame option router_act" where
  "next_frame others peer = act_get (\<lambda>r.
     if received peer r = [] then act_seq (in_background others) (take_frame peer) else take_frame peer)"

text \<open>The tests drop the peer's sink, so the task that polls the peer reads the end of the stream.\<close>

definition peer_hangs_up :: "env \<Rightarrow> public_key \<Rightarrow> test" where
  "peer_hangs_up E peer = take_task E None (Peer_Loop peer)"

definition peer_sends :: "env \<Rightarrow> public_key \<Rightarrow> frame \<Rightarrow> test" where
  "peer_sends E peer f = in_background (take_task E (Some (Inr f)) (Peer_Loop peer))"

definition assert_ok :: "handler \<Rightarrow> test" where
  "assert_ok h = act_bind h (\<lambda>res. act_assert (res = Inr ()))"

definition ignore_result :: "handler \<Rightarrow> test" where
  "ignore_result h = act_bind h (\<lambda>res. act_ret ())"

text \<open>The root of an announcement, and who signed it with which port.\<close>

definition assert_announcement :: "root \<Rightarrow> (public_key \<times> port) list \<Rightarrow> frame option \<Rightarrow> test" where
  "assert_announcement rt signers f =
     (case f of
        Some (TreeAnnouncement ann) \<Rightarrow> act_assert (ann_root ann = rt \<and>
          map (\<lambda>s. (signing_public_key s, destination_port s)) (ann_signatures ann) = signers)
      | _ \<Rightarrow> act_panic)"

definition assert_hung_up :: "env \<Rightarrow> public_key \<Rightarrow> test" where
  "assert_hung_up E peer = act_bind (next_frame (peer_hangs_up E peer) peer) (\<lambda>f. act_assert (f = None))"

definition root_of :: "public_key \<Rightarrow> root" where
  "root_of key = Root key 0"

text \<open>An announcement as the tests write it down, signed by some keys in turn for port 1.\<close>

definition test_announcement :: "env \<Rightarrow> public_key \<Rightarrow> sequence_number \<Rightarrow> signing_key list \<Rightarrow> tree_announcement" where
  "test_announcement E key order signers =
     foldl (\<lambda>a sk. append_signature (env_crypto E) a sk 1)
       \<lparr>ann_root = root_of key, ann_signatures = [], ann_receive_time = env_now E, ann_receive_order = order\<rparr>
       signers"

definition set_first_announcement :: "env \<Rightarrow> signing_key \<Rightarrow> test" where
  "set_first_announcement E peer_key =
     (let peer = verification_key (env_crypto E) peer_key
      in set_tree_announcement peer (test_announcement E peer 1 [peer_key]))"

definition set_second_announcement_for_root :: "env \<Rightarrow> signing_key \<Rightarrow> test" where
  "set_second_announcement_for_root E peer_key = act_get (\<lambda>r.
     set_tree_announcement (verification_key (env_crypto E) peer_key)
       (test_announcement E (public_key r) 0 [private_key r, peer_key]))"

section \<open>The tests of the tree\<close>

definition send_first_announcement_test :: "env \<Rightarrow> signing_key \<Rightarrow> signing_key \<Rightarrow> test" where
  "send_first_announcement_test E key1 key2 =
     (let pub1 = verification_key (env_crypto E) key1; pub2 = verification_key (env_crypto E) key2
      in act_seq (get_test_router_with_peer E pub2 True)
           (act_bind (next_frame (peer_hangs_up E pub2) pub2)
             (assert_announcement (root_of pub1) [(pub1, 1)])))"

definition receive_valid_first_announcement_as_root :: "env \<Rightarrow> signing_key \<Rightarrow> signing_key \<Rightarrow> test" where
  "receive_valid_first_announcement_as_root E key1 key2 =
     (let pub1 = verification_key (env_crypto E) key1; pub2 = verification_key (env_crypto E) key2
      in act_seq (get_test_router_with_peer E pub1 False)
           (act_seq (assert_ok (handle_frame E (TreeAnnouncement (test_announcement E pub1 0 [key1])) pub1))
             (act_bind (next_frame (peer_hangs_up E pub1) pub1)
               (assert_announcement (root_of pub2) [(pub2, 1)]))))"

definition receive_valid_first_announcement_as_non_root :: "env \<Rightarrow> signing_key \<Rightarrow> signing_key \<Rightarrow> test" where
  "receive_valid_first_announcement_as_non_root E key1 key2 =
     (let pub1 = verification_key (env_crypto E) key1; pub2 = verification_key (env_crypto E) key2
      in act_seq (get_test_router_with_peer E pub2 False)
           (act_seq (assert_ok (handle_frame E (TreeAnnouncement (test_announcement E pub2 0 [key2])) pub2))
             (act_bind (next_frame (peer_hangs_up E pub2) pub2)
               (assert_announcement (root_of pub2) [(pub2, 1), (pub1, 1)]))))"

definition drop_announcement_with_loop :: "env \<Rightarrow> signing_key \<Rightarrow> signing_key \<Rightarrow> test" where
  "drop_announcement_with_loop E key1 key2 =
     (let pub1 = verification_key (env_crypto E) key1; pub2 = verification_key (env_crypto E) key2
      in act_seq (get_test_router_with_peer E pub1 False)
           (act_seq (set_first_announcement E key1)
             (act_seq
               (ignore_result (handle_frame E (TreeAnnouncement (test_announcement E pub2 0 [key2, key1])) pub1))
               (assert_hung_up E pub1))))"

definition receive_replayed_sequence_number :: "env \<Rightarrow> signing_key \<Rightarrow> signing_key \<Rightarrow> test" where
  "receive_replayed_sequence_number E key1 key2 =
     (let pub1 = verification_key (env_crypto E) key1; pub2 = verification_key (env_crypto E) key2
      in act_seq (get_test_router_with_peer E pub2 False)
           (act_seq (set_first_announcement E key2)
             (act_seq
               (ignore_result (handle_frame E (TreeAnnouncement (test_announcement E pub2 0 [key2])) pub1))
               (assert_hung_up E pub2))))"

definition receive_announcement_with_loop :: "env \<Rightarrow> signing_key \<Rightarrow> signing_key \<Rightarrow> test" where
  "receive_announcement_with_loop E key1 key2 =
     (let pub1 = verification_key (env_crypto E) key1; pub2 = verification_key (env_crypto E) key2
      in act_seq (get_test_router_with_peer E pub1 False)
           (act_seq (set_first_announcement E key1)
             (act_seq
               (ignore_result (handle_frame E (TreeAnnouncement (test_announcement E pub2 0 [key2, key1])) pub1))
               (assert_hung_up E pub1))))"

section \<open>The tests of the snake\<close>

text \<open>What the tests write into the router directly.\<close>

definition set_path :: "snek_path_index \<Rightarrow> snek_path \<Rightarrow> test" where
  "set_path index entry = act_modify (\<lambda>r. r\<lparr>paths := hm_insert index entry (paths r)\<rparr>)"

definition set_candidate :: "snek_path \<Rightarrow> test" where
  "set_candidate entry = act_modify (\<lambda>r. r\<lparr>candidate := Some entry\<rparr>)"

text \<open>Two entries agree in every field but the time they were last seen.\<close>

definition same_path :: "snek_path \<Rightarrow> snek_path \<Rightarrow> bool" where
  "same_path p q \<longleftrightarrow> path_active p = path_active q \<and> path_index p = path_index q \<and> path_root p = path_root q \<and>
     path_source p = path_source q \<and> path_destination p = path_destination q \<and>
     path_origin p = path_origin q \<and> path_target p = path_target q"

definition assert_path :: "snek_path option \<Rightarrow> snek_path \<Rightarrow> test" where
  "assert_path p entry = act_unwrap p (\<lambda>path. act_assert (same_path path entry))"

definition bootstrap_test :: "env \<Rightarrow> signing_key \<Rightarrow> signing_key \<Rightarrow> test" where
  "bootstrap_test E key1 key2 =
     (let pub1 = verification_key (env_crypto E) key1; pub2 = verification_key (env_crypto E) key2
      in act_seq (get_test_router_with_peer E pub2 False)
           (act_seq (set_first_announcement E key2)
             (act_seq (set_parent pub2)
               (act_seq (bootstrap_now E)
                 (act_bind (next_frame (peer_hangs_up E pub2) pub2) (\<lambda>f.
                   case f of
                     Some (SnekBootstrap bootstrap) \<Rightarrow>
                       act_assert (sb_root bootstrap = root_of pub2 \<and> sb_destination_key bootstrap = pub1 \<and>
                         sb_source bootstrap = [1])
                   | _ \<Rightarrow> act_panic))))))"

definition dont_bootstrap_as_root :: "env \<Rightarrow> signing_key \<Rightarrow> signing_key \<Rightarrow> test" where
  "dont_bootstrap_as_root E key1 key2 =
     (let pub1 = verification_key (env_crypto E) key1; pub2 = verification_key (env_crypto E) key2
      in act_seq (get_test_router_with_peer E pub1 False)
           (act_seq (set_first_announcement E key1)
             (act_seq (set_parent pub2)
               (act_seq (bootstrap_now E) (assert_hung_up E pub1)))))"

definition respond_to_bootstrap_as_root :: "env \<Rightarrow> signing_key \<Rightarrow> signing_key \<Rightarrow> test" where
  "respond_to_bootstrap_as_root E key1 key2 =
     (let pub1 = verification_key (env_crypto E) key1; pub2 = verification_key (env_crypto E) key2;
          bootstrap = \<lparr>sb_root = root_of pub2, sb_destination_key = pub1, sb_source = [1], sb_path_id = 0\<rparr>
      in act_seq (get_test_router_with_peer E pub1 False)
           (act_seq (set_first_announcement E key1)
             (act_seq (set_second_announcement_for_root E key1)
               (act_seq (set_parent pub2)
                 (act_seq (ignore_result (handle_frame E (SnekBootstrap bootstrap) pub1))
                   (act_bind (next_frame (peer_hangs_up E pub1) pub1) (\<lambda>f.
                     case f of
                       Some (SnekBootstrapACK ack) \<Rightarrow>
                         act_assert (ba_root ack = root_of pub2 \<and> ba_destination_key ack = pub1 \<and>
                           ba_destination_coordinates ack = [1] \<and> ba_path_id ack = 0 \<and>
                           ba_source_key ack = pub2 \<and> ba_source_coordinates ack = [])
                     | _ \<Rightarrow> act_panic)))))))"

definition receive_bootstrap_ack :: "env \<Rightarrow> signing_key \<Rightarrow> signing_key \<Rightarrow> test" where
  "receive_bootstrap_ack E key1 key2 =
     (let pub1 = verification_key (env_crypto E) key1; pub2 = verification_key (env_crypto E) key2;
          ack = \<lparr>ba_destination_coordinates = [1], ba_destination_key = pub1, ba_source_coordinates = [],
            ba_source_key = pub2, ba_root = root_of pub2, ba_path_id = 0\<rparr>;
          index = Snek_Path_Index pub1 0;
          entry = \<lparr>path_index = index, path_origin = pub2, path_target = pub2, path_source = 0,
            path_destination = 1, path_last_seen = env_now E, path_root = root_of pub2, path_active = False\<rparr>
      in act_seq (get_test_router_with_peer E pub2 False)
           (act_seq (set_first_announcement E key2)
             (act_seq (set_parent pub2)
               (act_seq (assert_ok (handle_frame E (SnekBootstrapACK ack) pub2))
                 (act_seq
                   (act_bind (next_frame (peer_hangs_up E pub2) pub2) (\<lambda>f.
                     case f of
                       Some (SnekSetup setup) \<Rightarrow>
                         act_assert (su_path_id setup = 0 \<and> su_source_key setup = pub1 \<and>
                           su_destination_key setup = pub2 \<and> su_destination setup = [] \<and>
                           su_root setup = root_of pub2)
                     | _ \<Rightarrow> act_panic))
                   (act_get (\<lambda>r.
                     act_seq (assert_path (hm_get (paths r) index) entry)
                       (assert_path (candidate r) (entry\<lparr>path_active := True\<rparr>)))))))))"

definition respond_to_setup_as_root :: "env \<Rightarrow> signing_key \<Rightarrow> signing_key \<Rightarrow> test" where
  "respond_to_setup_as_root E key1 key2 =
     (let pub1 = verification_key (env_crypto E) key1; pub2 = verification_key (env_crypto E) key2;
          setup = \<lparr>su_root = root_of pub2, su_destination = [], su_destination_key = pub2,
            su_source_key = pub1, su_path_id = 0\<rparr>;
          index = Snek_Path_Index pub1 0;
          entry = \<lparr>path_index = index, path_origin = pub1, path_target = pub2, path_source = 1,
            path_destination = 0, path_last_seen = env_now E, path_root = root_of pub2, path_active = True\<rparr>
      in act_seq (get_test_router_with_peer E pub1 False)
           (act_seq (set_first_announcement E key1)
             (act_seq (set_second_announcement_for_root E key1)
               (act_seq (set_parent pub2)
                 (act_seq (assert_ok (handle_frame E (SnekSetup setup) pub1))
                   (act_seq
                     (act_bind (next_frame (peer_hangs_up E pub1) pub1) (\<lambda>f.
                       case f of
                         Some (SnekSetupACK ack) \<Rightarrow>
                           act_assert (sa_root ack = root_of pub2 \<and> sa_path_id ack = 0 \<and>
                             sa_destination_key ack = pub1)
                       | _ \<Rightarrow> act_panic))
                     (act_get (\<lambda>r.
                       act_seq (assert_path (hm_get (paths r) index) entry)
                         (assert_path (descending_path r) entry)))))))))"

definition receive_setup_ack :: "env \<Rightarrow> signing_key \<Rightarrow> signing_key \<Rightarrow> test" where
  "receive_setup_ack E key1 key2 =
     (let pub1 = verification_key (env_crypto E) key1; pub2 = verification_key (env_crypto E) key2;
          ack = \<lparr>sa_root = root_of pub2, sa_destination_key = pub1, sa_path_id = 0\<rparr>;
          index = Snek_Path_Index pub1 0;
          entry = \<lparr>path_index = index, path_origin = pub2, path_target = pub2, path_source = 0,
            path_destination = 1, path_last_seen = env_now E, path_root = root_of pub2, path_active = False\<rparr>;
          active = entry\<lparr>path_active := True\<rparr>
      in act_seq (get_test_router_with_peer E pub2 False)
           (act_seq (set_first_announcement E key2)
             (act_seq (set_parent pub2)
               (act_seq (set_path index entry)
                 (act_seq (set_candidate active)
                   (act_seq (assert_ok (handle_frame E (SnekSetupACK ack) pub2))
                     (act_get (\<lambda>r.
                       act_seq (assert_path (hm_get (paths r) index) active)
                         (act_seq (assert_path (ascending_path r) active)
                           (act_assert (candidate r = None)))))))))))"

section \<open>The test of a whole connection\<close>

text \<open>
  The peer keeps its sink here and answers the router's bootstrap and setup; while the reader
  waits for a frame the snake is maintained.
\<close>

definition router_connects_as_non_root :: "env \<Rightarrow> signing_key \<Rightarrow> signing_key \<Rightarrow> test" where
  "router_connects_as_non_root E key1 key2 =
     (let pub1 = verification_key (env_crypto E) key1; pub2 = verification_key (env_crypto E) key2;
          next = next_frame (snek_tick E) pub2
      in act_seq (act_seq start (add_peer E pub2 1 0 0 True))
        (act_seq (act_bind next (assert_announcement (root_of pub1) [(pub1, 1)]))
        (act_seq (peer_sends E pub2 (TreeAnnouncement (test_announcement E pub2 0 [key2])))
        (act_seq (act_bind next (assert_announcement (root_of pub2) [(pub2, 1), (pub1, 1)]))
        (act_seq (act_bind next (\<lambda>f.
           case f of
             Some (SnekBootstrap packet) \<Rightarrow>
               act_seq (act_assert (sb_root packet = root_of pub2 \<and> sb_destination_key packet = pub1 \<and>
                   sb_source packet = [1]))
                 (peer_sends E pub2 (SnekBootstrapACK
                   \<lparr>ba_destination_coordinates = [1], ba_destination_key = sb_destination_key packet,
                    ba_source_coordinates = [], ba_source_key = pub2, ba_root = sb_root packet,
                    ba_path_id = sb_path_id packet\<rparr>))
           | _ \<Rightarrow> act_panic))
        (act_seq (act_bind next (\<lambda>f.
           case f of
             Some (SnekSetup packet) \<Rightarrow>
               act_seq (act_assert (su_root packet = root_of pub2 \<and> su_destination packet = [] \<and>
                   su_destination_key packet = pub2 \<and> su_source_key packet = pub1))
                 (peer_sends E pub2 (SnekSetupACK
                   \<lparr>sa_root = su_root packet, sa_destination_key = su_source_key packet,
                    sa_path_id = su_path_id packet\<rparr>))
           | _ \<Rightarrow> act_panic))
        (act_get (\<lambda>r. act_assert (ascending_path r \<noteq> None)))))))))"

section \<open>Running the tests\<close>

lemma test_env_simps [simp]:
  "env_crypto (test_env C now random) = C" "env_now (test_env C now random) = now"
  "env_random (test_env C now random) = random" "env_sink_send (test_env C now random) socket f = None"
  "env_local_open (test_env C now random)"
  by (simp_all add: test_env_def)

lemma test_announcement_simps [simp]:
  "test_announcement E key order [] = \<lparr>ann_root = root_of key, ann_signatures = [],
     ann_receive_time = env_now E, ann_receive_order = order\<rparr>"
  "test_announcement E key order [a] = append_signature (env_crypto E) (test_announcement E key order []) a 1"
  "test_announcement E key order [a, b] = append_signature (env_crypto E) (test_announcement E key order [a]) b 1"
  by (simp_all add: test_announcement_def)

lemmas harness_defs = get_test_router_with_peer_def received_def take_frame_def next_frame_def
  peer_hangs_up_def peer_sends_def assert_ok_def ignore_result_def assert_announcement_def
  assert_hung_up_def act_assert_def in_background_def set_first_announcement_def
  set_second_announcement_for_root_def passes_def

lemmas router_defs = start_def add_peer_def spawn_peer_def spawn_def new_router_def
  set_tree_announcement_def send_tree_announcement_def send_tree_announcements_to_all_def
  send_logged_def send_def port_of_def peers_def hm_contains_key_def hm_entries_def
  hm_insert_def hm_remove_def

lemma one_signature_clean:
  assumes "crypto_correct C" and "ann_signatures a = []" and "p \<noteq> 0"
  shows "is_clean C (append_signature C a k p) peer =
    Some (root_public_key (ann_root a) = verification_key C k \<and> peer = verification_key C k)"
  using assms
  by (simp add: is_clean_def loop_detected_iff signed_bytes_def crypto_correct_def Let_def)

lemma two_signatures_clean:
  assumes "crypto_correct C" and "ann_signatures a = []" and "p \<noteq> 0" and "q \<noteq> 0"
  shows "is_clean C (append_signature C (append_signature C a k p) l q) peer =
    Some (root_public_key (ann_root a) = verification_key C k \<and> peer = verification_key C l)"
  using assms
  by (simp add: is_clean_def loop_detected_iff signed_bytes_def put_signature_def crypto_correct_def Let_def)

text \<open>What a router does when the only peer, without any path, hangs up.\<close>

lemmas handler_defs = done_ok_def handle_tree_announcement_def next_ordering_def replayed_def
  has_same_root_key_def replayed_old_sequence_def reparent_timer_expired_def announcement_from_parent_def
  announcement_from_other_def is_loop_of_child_def set_parent_def become_root_def
  take_task_def peer_loop_def poll_peer_def disconnect_peer_def disconnect_port_def
  checked_succ

lemmas view_defs = current_announcement_def tree_announcement_of_def root_of_def current_root_def

lemmas run_test = harness_defs router_defs handler_defs view_defs act_defs Let_def
  one_signature_clean two_signatures_clean

lemma send_first_announcement_passes:
  "verification_key C k1 \<noteq> verification_key C k2 \<Longrightarrow>
    passes C k1 (send_first_announcement_test (test_env C now random) k1 k2)"
  by (simp add: send_first_announcement_test_def run_test)

text \<open>What the tests of two nodes rely on: signatures verify, and which node has the higher key.\<close>

definition test_keys :: "crypto \<Rightarrow> signing_key \<Rightarrow> signing_key \<Rightarrow> bool" where
  "test_keys C low high \<longleftrightarrow> crypto_correct C \<and> verification_key C low < verification_key C high"

lemma test_keysD:
  assumes "test_keys C low high"
  shows "crypto_correct C" and "verification_key C low < verification_key C high"
    and "verification_key C low \<noteq> verification_key C high" and "verification_key C high \<noteq> verification_key C low"
    and "\<not> verification_key C high < verification_key C low"
  using assms by (auto simp: test_keys_def)

lemmas run_snek_test = set_path_def set_candidate_def assert_path_def same_path_def
  bootstrap_now_def next_snek_hop_def snek_best_def snek_start_def snek_consider_def dht_ordered_def
  handle_bootstrap_def next_tree_hop_def distance_to_def get_common_prefix_def forward_tree_def
  coordinates_of_def coords_def peer_coords_eq is_better_next_tree_hop_candidate_def
  handle_bootstrap_ack_def bootstrap_ack_update_def handle_setup_def handle_setup_at_destination_def
  setup_update_def get_peer_on_port_def handle_setup_ack_def activate_entry_def

lemma as_root_passes:
  "test_keys C k2 k1 \<Longrightarrow> passes C k1 (receive_valid_first_announcement_as_root (test_env C now random) k2 k1)"
  by (simp add: test_keysD [of C k2 k1] receive_valid_first_announcement_as_root_def run_test)

lemma as_non_root_passes:
  "test_keys C k2 k1 \<Longrightarrow> passes C k2 (receive_valid_first_announcement_as_non_root (test_env C now random) k2 k1)"
  by (simp add: test_keysD [of C k2 k1] receive_valid_first_announcement_as_non_root_def run_test)

lemma drop_loop_passes:
  "test_keys C k2 k1 \<Longrightarrow> passes C k2 (drop_announcement_with_loop (test_env C now random) k1 k2)"
  by (simp add: test_keysD [of C k2 k1] drop_announcement_with_loop_def run_test)

lemma replayed_passes:
  "test_keys C k2 k1 \<Longrightarrow> passes C k1 (receive_replayed_sequence_number (test_env C now random) k1 k2)"
  by (simp add: test_keysD [of C k2 k1] receive_replayed_sequence_number_def run_test)

lemma with_loop_passes:
  "test_keys C k2 k1 \<Longrightarrow> passes C k2 (receive_announcement_with_loop (test_env C now random) k1 k2)"
  by (simp add: test_keysD [of C k2 k1] receive_announcement_with_loop_def run_test)

lemma bootstrap_passes:
  "test_keys C k2 k1 \<Longrightarrow> passes C k1 (bootstrap_test (test_env C now random) k1 k2)"
  by (simp add: test_keysD [of C k2 k1] bootstrap_test_def run_test run_snek_test)

lemma dont_bootstrap_passes:
  "test_keys C k2 k1 \<Longrightarrow> passes C k2 (dont_bootstrap_as_root (test_env C now random) k1 k2)"
  by (simp add: test_keysD [of C k2 k1] dont_bootstrap_as_root_def run_test run_snek_test)

lemma respond_bootstrap_passes:
  "test_keys C k2 k1 \<Longrightarrow> passes C k2 (respond_to_bootstrap_as_root (test_env C now random) k1 k2)"
  by (simp add: test_keysD [of C k2 k1] respond_to_bootstrap_as_root_def run_test run_snek_test)

lemma bootstrap_ack_passes:
  "test_keys C k2 k1 \<Longrightarrow> passes C k2 (receive_bootstrap_ack (test_env C now random) k2 k1)"
  by (simp add: test_keysD [of C k2 k1] receive_bootstrap_ack_def run_test run_snek_test)

lemma respond_setup_passes:
  "test_keys C k2 k1 \<Longrightarrow> passes C k1 (respond_to_setup_as_root (test_env C now random) k2 k1)"
  by (simp add: test_keysD [of C k2 k1] respond_to_setup_as_root_def run_test run_snek_test)

lemma setup_ack_passes:
  "test_keys C k2 k1 \<Longrightarrow> passes C k1 (receive_setup_ack (test_env C now random) k1 k2)"
  by (simp add: test_keysD [of C k2 k1] receive_setup_ack_def run_test run_snek_test)

lemma connects_as_non_root_passes:
  "test_keys C k2 k1 \<Longrightarrow> passes C k2 (router_connects_as_non_root (test_env C now random) k2 k1)"
  by (simp add: test_keysD [of C k2 k1] router_connects_as_non_root_def run_test run_snek_test
      snek_tick_def maintain_snek_def maintain_ascending_def maintain_descending_def maintain_inactive_def)

text \<open>
  The test of replayed sequence numbers hands over the announcement as if this node had sent it,
  so the integrity check drops it. Handed over as the peer's, it is no replay either, because its
  sequence number is not below the stored one: it is stored again and answered.
\<close>

lemma repeated_sequence_is_no_replay:
  "test_keys C k2 k1 \<Longrightarrow> E = test_env C now random \<Longrightarrow>
    passes C k1
      (act_seq (get_test_router_with_peer E (verification_key C k2) False)
        (act_seq (set_first_announcement E k2)
          (act_seq
            (assert_ok (handle_frame E
              (TreeAnnouncement (test_announcement E (verification_key C k2) 0 [k2])) (verification_key C k2)))
            (act_bind (next_frame (peer_hangs_up E (verification_key C k2)) (verification_key C k2))
              (assert_announcement (root_of (verification_key C k1)) [(verification_key C k1, 1)])))))"
  by (simp add: test_keysD [of C k2 k1] run_test)

text \<open>
  C20: the unit tests of the router pass on the model. For every clock and random number, if
  signatures verify and the public key of \<open>[1; 32]\<close> is the higher one, as it is for Ed25519, each
  of the tests that drive one handler of the tree or the snake ends without a failed assertion,
  a failed \<open>unwrap\<close> or an endless wait.
\<close>

theorem router_unit_tests_pass:
  assumes "crypto_correct C" and "verification_key C (repeat_byte 2) < verification_key C (repeat_byte 1)"
  shows "let E = test_env C now random; one = repeat_byte 1; two = repeat_byte 2 in
    passes C one (send_first_announcement_test E one two) \<and>
    passes C one (receive_valid_first_announcement_as_root E two one) \<and>
    passes C two (receive_valid_first_announcement_as_non_root E two one) \<and>
    passes C two (drop_announcement_with_loop E one two) \<and>
    passes C one (receive_replayed_sequence_number E one two) \<and>
    passes C two (receive_announcement_with_loop E one two) \<and>
    passes C one (bootstrap_test E one two) \<and>
    passes C two (dont_bootstrap_as_root E one two) \<and>
    passes C two (respond_to_bootstrap_as_root E one two) \<and>
    passes C two (receive_bootstrap_ack E two one) \<and>
    passes C one (respond_to_setup_as_root E two one) \<and>
    passes C one (receive_setup_ack E one two)"
proof -
  have keys: "test_keys C (repeat_byte 2) (repeat_byte 1)"
    using assms by (simp add: test_keys_def)
  show ?thesis
    using keys test_keysD(4) [OF keys]
    by (simp add: Let_def send_first_announcement_passes as_root_passes as_non_root_passes drop_loop_passes
        replayed_passes with_loop_passes bootstrap_passes dont_bootstrap_passes respond_bootstrap_passes
        bootstrap_ack_passes respond_setup_passes setup_ack_passes)
qed

text \<open>
  A node joins through one peer. The test of a whole connection passes: after a router with
  the lower key meets a peer that is the root, it follows that root and announces so, its
  maintenance sends a bootstrap with its new coordinates, it answers the ACK of the bootstrap
  with a setup, and the ACK of the setup gives it an ascending path.
\<close>

theorem connecting_sets_ascending:
  assumes "crypto_correct C" and "verification_key C (repeat_byte 2) < verification_key C (repeat_byte 1)"
  shows "passes C (repeat_byte 2)
    (router_connects_as_non_root (test_env C now random) (repeat_byte 2) (repeat_byte 1))"
  using assms by (simp add: connects_as_non_root_passes test_keys_def)

section \<open>Examples\<close>

definition swapping_crypto :: crypto where
  "swapping_crypto = example_crypto\<lparr>verification_key := (\<lambda>sk.
     if sk = repeat_byte 1 then repeat_byte 2 else if sk = repeat_byte 2 then repeat_byte 1 else sk)\<rparr>"

lemma swapping_crypto_keys:
  "crypto_correct swapping_crypto"
  "verification_key swapping_crypto (repeat_byte 2) < verification_key swapping_crypto (repeat_byte 1)"
  by (simp_all add: swapping_crypto_def crypto_correct_def)

theorem router_unit_tests_pass_witness:
  "passes swapping_crypto (repeat_byte 1)
     (receive_setup_ack (test_env swapping_crypto 100 77) (repeat_byte 1) (repeat_byte 2))"
  using router_unit_tests_pass [OF swapping_crypto_keys, of 100 77] by (simp add: Let_def)

theorem connecting_sets_ascending_witness:
  "passes swapping_crypto (repeat_byte 2)
     (router_connects_as_non_root (test_env swapping_crypto 100 77) (repeat_byte 2) (repeat_byte 1))"
  by (rule connecting_sets_ascending [OF swapping_crypto_keys])

end
