(* ===== verification/Honest_Node.thy ===== *)
theory Honest_Node
  imports Router
begin

text \<open>
  What a router says about the tree, given what it hears. Every announcement it sends is one it
  stored, or that of its own root, with its own signature added; so the announcements of a
  network are chains of what its nodes said before.
\<close>

section \<open>What a node may announce\<close>

text \<open>
  \<open>G k a\<close> says that the node may hear the announcement \<open>a\<close> from \<open>k\<close>. An offer is what it may then
  sign: its own root, up to its own sequence number, or what it heard.
\<close>

definition offer :: "public_key \<Rightarrow> sequence_number \<Rightarrow> (public_key \<Rightarrow> tree_announcement \<Rightarrow> bool) \<Rightarrow> tree_announcement \<Rightarrow> bool" where
  "offer own n G b \<longleftrightarrow>
     (if ann_signatures b = [] then root_public_key (ann_root b) = own \<and> root_sequence_number (ann_root b) \<le> n
      else \<exists>k. G k b)"

lemma offer_mono: "offer own n G b \<Longrightarrow> n \<le> n' \<Longrightarrow> (\<And>k a. G k a \<Longrightarrow> G' k a) \<Longrightarrow> offer own n' G' b"
  unfolding offer_def by (auto split: if_splits)

definition signed_offer ::
  "crypto \<Rightarrow> signing_key \<Rightarrow> sequence_number \<Rightarrow> (public_key \<Rightarrow> tree_announcement \<Rightarrow> bool) \<Rightarrow> tree_announcement \<Rightarrow> bool" where
  "signed_offer C key n G a \<longleftrightarrow>
     (\<exists>b p. a = append_signature C b key p \<and> p \<noteq> 0 \<and> offer (verification_key C key) n G b)"

lemma signed_offer_mono:
  "signed_offer C key n G a \<Longrightarrow> n \<le> n' \<Longrightarrow> (\<And>k a. G k a \<Longrightarrow> G' k a) \<Longrightarrow> signed_offer C key n' G' a"
  unfolding signed_offer_def using offer_mono by blast

text \<open>Since the state \<open>r0\<close> the node has only added to what it sent and to its sequence number.\<close>

definition honest ::
  "crypto \<Rightarrow> signing_key \<Rightarrow> (public_key \<Rightarrow> tree_announcement \<Rightarrow> bool) \<Rightarrow> router_state \<Rightarrow> router_state \<Rightarrow> bool" where
  "honest C key G r0 r \<longleftrightarrow>
     private_key r = key \<and> public_key r = verification_key C key \<and> ports_wf r \<and>
     set (sent r0) \<subseteq> set (sent r) \<and> sequence r0 \<le> sequence r \<and>
     (\<forall>k a. tree_announcement_of r k = Some a \<longrightarrow> ann_signatures a \<noteq> [] \<and> G k a) \<and>
     (\<forall>k a. (k, TreeAnnouncement a) \<in> set (sent r) \<longrightarrow> signed_offer C key (sequence r) G a)"

lemma honest_keys: "honest C key G r0 r \<Longrightarrow> private_key r = key \<and> public_key r = verification_key C key \<and> ports_wf r"
  by (simp add: honest_def)

lemma honest_mono:
  assumes "honest C key G r0 r" and "\<And>k a. G k a \<Longrightarrow> G' k a"
  shows "honest C key G' r0 r"
  using assms signed_offer_mono [OF _ order_refl] unfolding honest_def by blast

lemma honest_now: "honest C key G r0 r \<Longrightarrow> honest C key G r r"
  by (simp add: honest_def)

lemma honest_new: "honest C key G (new_router C key) (new_router C key)"
  by (simp add: honest_def new_router_def ports_wf_def tree_announcement_of_def)

lemma honest_current:
  assumes "honest C key G r0 r"
  shows "offer (verification_key C key) (sequence r) G (current_announcement now r)"
  using assms by (auto simp: honest_def offer_def current_announcement_def split: option.split)

text \<open>The port of a peer is not zero.\<close>

lemma announced_to_signed:
  assumes "honest C key G r0 r" and "env_crypto E = C" and "offer (verification_key C key) (sequence r) G b"
    and "(k', TreeAnnouncement a) \<in> set (announced_to E r b k)"
  shows "signed_offer C key (sequence r) G a"
proof -
  obtain p where p: "port_of r k = Some p" "k \<noteq> public_key r" "a = append_signature C b key p"
    using assms(4) unfolding announced_to_def assms(2) honest_keys [OF assms(1), THEN conjunct1]
    by (cases "port_of r k"; cases "hm_get (upload_connections r) k") (auto simp: Let_def split: if_splits)
  have "p \<noteq> 0"
    using get_peer_on_port_of [OF _ p(1)] p(2) honest_keys [OF assms(1)] by (auto simp: get_peer_on_port_def)
  then show ?thesis
    using p(3) assms(3) by (auto simp: signed_offer_def)
qed

lemma honest_announce:
  assumes "honest C key G r0 r" and "env_crypto E = C" and "offer (verification_key C key) (sequence r) G b"
  shows "honest C key G r0 (r\<lparr>sent := sent r @ concat (map (announced_to E r b) ks)\<rparr>)"
proof -
  have "signed_offer C key (sequence r) G a" if "(k, TreeAnnouncement a) \<in> set (concat (map (announced_to E r b) ks))" for k a
    using that announced_to_signed [OF assms] by auto
  then show ?thesis
    using assms(1) by (auto simp: honest_def ports_wf_def tree_announcement_of_def)
qed

lemma honest_send_to_all:
  "honest C key G r0 r \<Longrightarrow> env_crypto E = C \<Longrightarrow> offer (verification_key C key) (sequence r) G b \<Longrightarrow>
    honest C key G r0 (snd (send_tree_announcements_to_all E b r))"
  by (simp add: send_to_all_run honest_announce)

lemma honest_send_one:
  assumes "honest C key G r0 r" and "env_crypto E = C" and "offer (verification_key C key) (sequence r) G b"
  shows "honest C key G r0 (snd (send_tree_announcement E k b r))"
proof (cases "port_of r k")
  case None
  with assms(1) show ?thesis
    by (simp add: send_tree_announcement_def act_get_def act_unwrap_def act_panic_def)
next
  case (Some p)
  then show ?thesis
    using honest_announce [OF assms, of "[k]"] by (simp add: send_tree_announcement_run)
qed

lemma honest_field:
  "honest C key G r0 r \<Longrightarrow> honest C key G r0 (r\<lparr>parent := x1\<rparr>)"
  "honest C key G r0 r \<Longrightarrow> honest C key G r0 (r\<lparr>ordering := x2\<rparr>)"
  "honest C key G r0 r \<Longrightarrow> honest C key G r0 (r\<lparr>reparent_timer := x3\<rparr>)"
  "honest C key G r0 r \<Longrightarrow> honest C key G r0 (r\<lparr>spawned := x4\<rparr>)"
  "honest C key G r0 r \<Longrightarrow> sequence r \<le> n \<Longrightarrow> honest C key G r0 (r\<lparr>sequence := n\<rparr>)"
  using signed_offer_mono [of C key "sequence r" G]
  by (auto simp: honest_def ports_wf_def tree_announcement_of_def)

section \<open>The invariant of an honest node\<close>

text \<open>What may be heard does not depend on when it is heard.\<close>

locale honest_node =
  fixes C :: crypto and key :: signing_key and G :: "public_key \<Rightarrow> tree_announcement \<Rightarrow> bool"
    and r0 :: router_state
  assumes heard_stamp: "G k a \<Longrightarrow> G k (a\<lparr>ann_receive_time := t, ann_receive_order := n\<rparr>)"

sublocale honest_node \<subseteq> honest_effects: plain_sends "honest C key G r0"
  by unfold_locales (auto simp: honest_def ports_wf_def tree_announcement_of_def)

sublocale honest_node \<subseteq> honest_paths: snek_insensitive "honest C key G r0"
  by unfold_locales (simp add: honest_def ports_wf_def tree_announcement_of_def)

context honest_node
begin

lemma honest_set_parent: "preserves (honest C key G r0) (set_parent p)"
  unfolding set_parent_def by (intro preserves_modify honest_field)

lemma honest_become_root: "preserves (honest C key G r0) become_root"
  unfolding become_root_def by (intro preserve honest_set_parent)

lemma honest_send_current:
  "env_crypto E = C \<Longrightarrow>
    preserves (honest C key G r0) (act_get (\<lambda>r. send_tree_announcements_to_all E (current_announcement (env_now E) r)))"
  by (rule preservesI) (simp add: act_get_def honest_send_to_all honest_current)

lemma honest_parent_selection: "env_crypto E = C \<Longrightarrow> preserves (honest C key G r0) (parent_selection E)"
  unfolding parent_selection_def
  by (intro preserve honest_set_parent honest_become_root honest_send_current)

lemma honest_reparent: "preserves (honest C key G r0) (reparent wait)"
  unfolding reparent_def by (intro preserve)

lemma honest_wait: "preserves (honest C key G r0) select_new_parent_with_wait"
  unfolding select_new_parent_with_wait_def by (intro preserve honest_become_root honest_reparent)

lemma honest_from_parent:
  assumes E: "env_crypto E = C"
  shows "preserves (honest C key G r0) (announcement_from_parent E a)"
proof (rule preservesI)
  fix r assume r: "honest C key G r0 r"
  have "honest C key G r0 (snd (send_tree_announcements_to_all E (current_announcement (env_now E) r) r))"
    using honest_send_to_all [OF r E honest_current [OF r]] .
  moreover have "honest C key G r0 (snd (select_new_parent_with_wait r))"
    using honest_wait r by (rule preservesD)
  ultimately show "honest C key G r0 (snd (announcement_from_parent E a r))"
    using r by (simp add: announcement_from_parent_def act_get_def act_ret_def Let_def)
qed

lemma honest_from_other:
  assumes E: "env_crypto E = C"
  shows "preserves (honest C key G r0) (announcement_from_other E a k)"
proof (rule preservesI)
  fix r assume r: "honest C key G r0 r"
  have "honest C key G r0 (snd (send_tree_announcement E k (current_announcement (env_now E) r) r))"
    using honest_send_one [OF r E honest_current [OF r]] .
  moreover have "honest C key G r0 (snd (act_seq (set_parent k)
      (act_get (\<lambda>r. send_tree_announcements_to_all E (current_announcement (env_now E) r))) r))"
    using preserves_seq [OF honest_set_parent honest_send_current [OF E]] r by (rule preservesD)
  moreover have "honest C key G r0 (snd (reparent False r))"
    using honest_reparent r by (rule preservesD)
  ultimately show "honest C key G r0 (snd (announcement_from_other E a k r))"
    using r unfolding announcement_from_other_def
    by (subst act_get_def) (simp only: Let_def act_ret_def snd_conv split: if_split, blast)
qed

lemma honest_store:
  "honest C key G r0 r \<Longrightarrow> G k a \<Longrightarrow> ann_signatures a \<noteq> [] \<Longrightarrow> honest C key G r0 (stored E r a k)"
  by (auto simp: honest_def stored_def stamped_def ports_wf_def tree_announcement_of_def heard_stamp
      split: if_splits)

lemma honest_handle_announcement:
  assumes "env_crypto E = C" and "G k a"
  shows "preserves (honest C key G r0) (handle_tree_announcement E a k)"
proof (rule preservesI)
  fix r assume r: "honest C key G r0 r"
  show "honest C key G r0 (snd (handle_tree_announcement E a k r))"
  proof (cases "ordering r = - 1")
    case True
    then have "checked_add (ordering r) 1 = None"
      by (simp add: checked_add_max)
    then show ?thesis
      using r by (simp add: handle_tree_announcement_def next_ordering_def act_defs)
  next
    case False
    have "honest C key G r0 (stored E r a k)" if "is_clean C a k = Some True"
      using that r assms(2) by (intro honest_store is_clean_True_nonempty)
    moreover from this have
      "is_clean C a k = Some True \<Longrightarrow> honest C key G r0 (snd (announcement_from_parent E b (stored E r a k)))"
      "is_clean C a k = Some True \<Longrightarrow> honest C key G r0 (snd (announcement_from_other E b k (stored E r a k)))" for b
      using preservesD [OF honest_from_parent [OF assms(1)]] preservesD [OF honest_from_other [OF assms(1)]] by blast+
    ultimately show ?thesis
      using r honest_field(2) [OF r] unfolding handle_tree_announcement_run [OF False] assms(1)
      by (cases "is_clean C a k") auto
  qed
qed

lemma honest_maintain_tree: "env_crypto E = C \<Longrightarrow> preserves (honest C key G r0) (maintain_tree E)"
proof -
  assume E: "env_crypto E = C"
  have "honest C key G r0 (snd (act_bind (new_tree_announcement (env_now E)) (send_tree_announcements_to_all E) r))"
    if r: "honest C key G r0 r" for r
  proof (cases "checked_add (sequence r) 1")
    case None
    then show ?thesis
      using r by (simp add: new_tree_announcement_def next_sequence_def act_defs)
  next
    case (Some n)
    then have "sequence r \<le> n"
      by (rule checked_add_ge)
    then have "honest C key G r0 (r\<lparr>sequence := n\<rparr>)"
      using r by (simp add: honest_field)
    then show ?thesis
      using Some r E honest_send_to_all [of C key G r0 "r\<lparr>sequence := n\<rparr>" E]
      by (simp add: new_tree_announcement_def next_sequence_def act_defs offer_def honest_keys)
  qed
  then show ?thesis
    unfolding maintain_tree_def by (intro preserve honest_reparent preservesI)
qed

end

sublocale honest_node \<subseteq> honest_router: router_contract "honest C key G r0" C "\<lambda>k f. \<forall>a. f = TreeAnnouncement a \<longrightarrow> G k a"
proof unfold_locales
  show "preserves (honest C key G r0) (handle_tree_announcement E a k)" if "env_crypto E = C" "\<forall>b. TreeAnnouncement a = TreeAnnouncement b \<longrightarrow> G k b" for E k a
    using that by (intro honest_handle_announcement) simp_all
  show "preserves (honest C key G r0) (parent_selection E)" "preserves (honest C key G r0) (maintain_tree E)"
    if "env_crypto E = C" for E
    using that by (rule honest_parent_selection honest_maintain_tree)+
  show "preserves (honest C key G r0) (act_get (\<lambda>r. send_tree_announcement E k (current_announcement (env_now E) r)))"
    if "env_crypto E = C" for E k
    by (rule preservesI) (simp add: act_get_def honest_send_one honest_current that)
  show "preserves (honest C key G r0) (set_reparent_timer now)" for now
    unfolding set_reparent_timer_def by (intro preserves_modify honest_field)
  show "preserves (honest C key G r0) (teardown_path from k path_id)" for "from" k path_id
    by (rule honest_paths.preserves_teardown_path)
  show "preserves (honest C key G r0) (handle_bootstrap_ack E ack)" for E ack
    by (rule honest_paths.preserves_handle_bootstrap_ack)
  show "preserves (honest C key G r0) (handle_setup E from rx next_hop)" for E "from" rx next_hop
    by (rule honest_paths.preserves_handle_setup)
  show "preserves (honest C key G r0) (handle_setup_ack E from rx)" for E "from" rx
    by (rule honest_paths.preserves_handle_setup_ack)
qed (auto simp: honest_def ports_wf_def tree_announcement_of_def dest: new_port_from_Some split: if_splits)

end
