(* ===== verification/Wire_Frame.thy ===== *)
theory Wire_Frame
  imports Frames
begin

text \<open>
  \<open>src/wire_frame.rs\<close>: the \<open>PineconeCodec\<close>. \<open>encode\<close> writes a frame to an empty buffer and
  \<open>decode\<close> takes the next frame off the front of a buffer. A decoding step returns \<open>Inl\<close> an
  error or \<open>Inr\<close> an optional frame (\<open>None\<close> asks for more bytes) with the bytes that are left;
  it is \<open>None\<close> when the code panics, on a read past the end of the buffer or an overflow in
  the 16-bit length arithmetic.
\<close>

type_synonym decode_result = "((router_error + frame option) \<times> u8 list) option"

section \<open>Encoding\<close>

definition FRAME_MAGIC_BYTES :: "u8 list" where
  "FRAME_MAGIC_BYTES = [0x70, 0x69, 0x6e, 0x65]"

text \<open>The length as computed in \<open>usize\<close>; \<open>encode\<close> casts it to 16 bits.\<close>

fun frame_len :: "frame \<Rightarrow> nat" where
  "frame_len (TreeRouted p) = 10 + 2 + length (tp_destination_coordinates p) * 8
     + 2 + length (tp_source_coordinates p) * 8 + length (tp_payload p)"
| "frame_len (SnekRouted p) = 10 + 32 + 32 + length (sp_payload p)"
| "frame_len (TreeAnnouncement a) = 10 + 32 + 8 + 2 + length (ann_signatures a) * (32 + 8)"
| "frame_len (SnekBootstrap p) = 10 + 32 + 2 + length (sb_source p) * 8 + 32 + 8 + 8"
| "frame_len (SnekBootstrapACK p) = 10 + 2 + length (ba_destination_coordinates p) * 8
     + 32 + 2 + length (ba_source_coordinates p) * 8 + 32 + 32 + 8 + 8"
| "frame_len (SnekSetup p) = 10 + 2 + length (su_destination p) * 8 + 32 + 32 + 32 + 8 + 8"
| "frame_len (SnekSetupACK p) = 10 + 32 + 32 + 8 + 8"
| "frame_len (SnekTeardown p) = 10 + 32 + 32 + 8 + 8"

fun frame_type :: "frame \<Rightarrow> u8" where
  "frame_type (TreeRouted _) = 2"
| "frame_type (SnekRouted _) = 8"
| "frame_type (TreeAnnouncement _) = 1"
| "frame_type (SnekBootstrap _) = 3"
| "frame_type (SnekBootstrapACK _) = 4"
| "frame_type (SnekSetup _) = 5"
| "frame_type (SnekSetupACK _) = 6"
| "frame_type (SnekTeardown _) = 7"

definition put_coordinates :: "coordinates \<Rightarrow> u8 list" where
  "put_coordinates c = put_u16 (of_nat (length c)) @ concat (map put_u64 c)"

fun encode_body :: "frame \<Rightarrow> u8 list" where
  "encode_body (TreeRouted p) =
     put_coordinates (tp_destination_coordinates p) @ put_coordinates (tp_source_coordinates p) @ tp_payload p"
| "encode_body (SnekRouted p) =
     put_array (sp_destination_key p) @ put_array (sp_source_key p) @ sp_payload p"
| "encode_body (TreeAnnouncement a) =
     put_root (ann_root a) @ put_u16 (of_nat (length (ann_signatures a))) @
     concat (map put_signature (ann_signatures a))"
| "encode_body (SnekBootstrap p) =
     put_array (sb_destination_key p) @ put_coordinates (sb_source p) @ put_root (sb_root p) @
     put_u64 (sb_path_id p)"
| "encode_body (SnekBootstrapACK p) =
     put_coordinates (ba_destination_coordinates p) @ put_array (ba_destination_key p) @
     put_coordinates (ba_source_coordinates p) @ put_array (ba_source_key p) @
     put_root (ba_root p) @ put_u64 (ba_path_id p)"
| "encode_body (SnekSetup p) =
     put_coordinates (su_destination p) @ put_array (su_destination_key p) @
     put_array (su_source_key p) @ put_root (su_root p) @ put_u64 (su_path_id p)"
| "encode_body (SnekSetupACK p) =
     put_array (sa_destination_key p) @ put_root (sa_root p) @ put_u64 (sa_path_id p)"
| "encode_body (SnekTeardown p) =
     put_array (td_destination_key p) @ put_root (td_root p) @ put_u64 (td_path_id p)"

definition frame_header :: "u8 \<Rightarrow> u16 \<Rightarrow> u8 list" where
  "frame_header ty len = FRAME_MAGIC_BYTES @ put_u8 0 @ put_u8 ty @ put_u16 0 @ put_u16 len"

definition encode_frame :: "frame \<Rightarrow> u8 list" where
  "encode_frame f = frame_header (frame_type f) (of_nat (frame_len f)) @ encode_body f"

definition encode :: "frame \<Rightarrow> u8 list \<Rightarrow> (router_error + unit) \<times> u8 list" where
  "encode item dst =
     (if dst \<noteq> [] then (Inl (EncodingError ''Buffer to write to is not empty''), dst)
      else (Inr (), dst @ encode_frame item))"

section \<open>Decoding\<close>

definition decode_key :: "public_key reader" where
  "decode_key = get_array"

definition decode_signature :: "signature reader" where
  "decode_signature = get_array"

definition get_root :: "root reader" where
  "get_root src = do {
     (key, src) \<leftarrow> decode_key src;
     (seq, src) \<leftarrow> get_u64 src;
     Some (Root key seq, src)
   }"

definition get_signature :: "root_announcement_signature reader" where
  "get_signature src = do {
     (key, src) \<leftarrow> decode_key src;
     (p, src) \<leftarrow> get_u64 src;
     (sg, src) \<leftarrow> decode_signature src;
     Some (\<lparr>signing_public_key = key, destination_port = p, sig_bytes = sg\<rparr>, src)
   }"

definition get_coordinates :: "coordinates reader" where
  "get_coordinates src = do {
     (n, src) \<leftarrow> get_u16 src;
     get_many get_u64 (unat n) src
   }"

definition decode_tree_announcement :: "system_time \<Rightarrow> frame reader" where
  "decode_tree_announcement now src = do {
     (r, src) \<leftarrow> get_root src;
     (sig_len, src) \<leftarrow> get_u16 src;
     (sigs, src) \<leftarrow> get_many get_signature (unat sig_len) src;
     Some (TreeAnnouncement \<lparr>ann_root = r, ann_signatures = sigs, ann_receive_time = now,
       ann_receive_order = 0\<rparr>, src)
   }"

text \<open>
  The second loop runs to \<open>dest_len\<close>, not to \<open>source_len\<close>. The payload length is computed in
  16 bits, from left to right.
\<close>

definition decode_tree_packet :: "u16 \<Rightarrow> frame reader" where
  "decode_tree_packet len src = do {
     (dest_len, src) \<leftarrow> get_u16 src;
     (dest, src) \<leftarrow> get_many get_u64 (unat dest_len) src;
     (source_len, src) \<leftarrow> get_u16 src;
     (source, src) \<leftarrow> get_many get_u64 (unat dest_len) src;
     l1 \<leftarrow> checked_sub len 10;
     l2 \<leftarrow> checked_sub l1 4;
     d8 \<leftarrow> checked_mul dest_len 8;
     l3 \<leftarrow> checked_sub l2 d8;
     s8 \<leftarrow> checked_mul source_len 8;
     payload_len \<leftarrow> checked_sub l3 s8;
     (payload, src) \<leftarrow> get_many get_u8 (unat payload_len) src;
     Some (TreeRouted \<lparr>tp_source_coordinates = source, tp_destination_coordinates = dest,
       tp_payload = payload\<rparr>, src)
   }"

definition decode_bootstrap :: "frame reader" where
  "decode_bootstrap src = do {
     (dest_key, src) \<leftarrow> decode_key src;
     (source, src) \<leftarrow> get_coordinates src;
     (r, src) \<leftarrow> get_root src;
     (path_id, src) \<leftarrow> get_u64 src;
     Some (SnekBootstrap \<lparr>sb_root = r, sb_destination_key = dest_key, sb_source = source,
       sb_path_id = path_id\<rparr>, src)
   }"

definition decode_bootstrap_ack :: "frame reader" where
  "decode_bootstrap_ack src = do {
     (dest, src) \<leftarrow> get_coordinates src;
     (dest_key, src) \<leftarrow> decode_key src;
     (source, src) \<leftarrow> get_coordinates src;
     (source_key, src) \<leftarrow> decode_key src;
     (r, src) \<leftarrow> get_root src;
     (path_id, src) \<leftarrow> get_u64 src;
     Some (SnekBootstrapACK \<lparr>ba_destination_coordinates = dest, ba_destination_key = dest_key,
       ba_source_coordinates = source, ba_source_key = source_key, ba_root = r,
       ba_path_id = path_id\<rparr>, src)
   }"

definition decode_setup :: "frame reader" where
  "decode_setup src = do {
     (dest, src) \<leftarrow> get_coordinates src;
     (dest_key, src) \<leftarrow> decode_key src;
     (source_key, src) \<leftarrow> decode_key src;
     (r, src) \<leftarrow> get_root src;
     (path_id, src) \<leftarrow> get_u64 src;
     Some (SnekSetup \<lparr>su_root = r, su_destination = dest, su_destination_key = dest_key,
       su_source_key = source_key, su_path_id = path_id\<rparr>, src)
   }"

definition decode_setup_ack :: "frame reader" where
  "decode_setup_ack src = do {
     (dest_key, src) \<leftarrow> decode_key src;
     (r, src) \<leftarrow> get_root src;
     (path_id, src) \<leftarrow> get_u64 src;
     Some (SnekSetupACK \<lparr>sa_root = r, sa_destination_key = dest_key, sa_path_id = path_id\<rparr>, src)
   }"

definition decode_teardown :: "frame reader" where
  "decode_teardown src = do {
     (dest_key, src) \<leftarrow> decode_key src;
     (r, src) \<leftarrow> get_root src;
     (path_id, src) \<leftarrow> get_u64 src;
     Some (SnekTeardown \<lparr>td_root = r, td_destination_key = dest_key, td_path_id = path_id\<rparr>, src)
   }"

definition decode_snek_packet :: "u16 \<Rightarrow> frame reader" where
  "decode_snek_packet len src = do {
     (dest_key, src) \<leftarrow> decode_key src;
     (source_key, src) \<leftarrow> decode_key src;
     l1 \<leftarrow> checked_sub len 10;
     payload_len \<leftarrow> checked_sub l1 64;
     (payload, src) \<leftarrow> get_many get_u8 (unat payload_len) src;
     Some (SnekRouted \<lparr>sp_destination_key = dest_key, sp_source_key = source_key,
       sp_payload = payload\<rparr>, src)
   }"

definition decode_body :: "system_time \<Rightarrow> u8 \<Rightarrow> u16 \<Rightarrow> u8 list \<Rightarrow> decode_result" where
  "decode_body now ty len src =
     (let done = map_option (\<lambda>(f, rest). (Inr (Some f), rest))
      in if ty = 1 then done (decode_tree_announcement now src)
         else if ty = 2 then done (decode_tree_packet len src)
         else if ty = 3 then done (decode_bootstrap src)
         else if ty = 4 then done (decode_bootstrap_ack src)
         else if ty = 5 then done (decode_setup src)
         else if ty = 6 then done (decode_setup_ack src)
         else if ty = 7 then done (decode_teardown src)
         else if ty = 8 then done (decode_snek_packet len src)
         else Some (Inl (DecodingError ''Not a supported frame type''), src))"

definition decode :: "system_time \<Rightarrow> u8 list \<Rightarrow> decode_result" where
  "decode now src =
     (if src = [] then Some (Inr None, src)
      else if length src < 4 then Some (Inr None, src)
      else if take 4 src \<noteq> FRAME_MAGIC_BYTES then
        Some (Inl (DecodingError ''Magic Bytes not found''), src)
      else if length src < 10 then Some (Inr None, src)
      else do {
        (magic, src) \<leftarrow> get_u32 src;
        (version, src) \<leftarrow> get_u8 src;
        if version \<noteq> 0 then Some (Inl (DecodingError ''Not frame version 0''), src)
        else do {
          (ty, src) \<leftarrow> get_u8 src;
          (extra1, src) \<leftarrow> get_u8 src;
          (extra2, src) \<leftarrow> get_u8 src;
          (len, src) \<leftarrow> get_u16 src;
          body_len \<leftarrow> checked_sub len 10;
          if length src < unat body_len then
            Some (Inl (DecodingError ''Did not receive enough bytes''), src)
          else decode_body now ty len src
        }
      })"

section \<open>Fields\<close>

lemma decode_key_put [simp]: "decode_key (put_array k @ rest) = Some (k, rest)"
  by (simp add: decode_key_def array_field.get_put)

lemma decode_signature_put [simp]: "decode_signature (put_array s @ rest) = Some (s, rest)"
  by (simp add: decode_signature_def array_field.get_put)

interpretation root_field: field_codec put_root get_root 40
proof unfold_locales
  fix x rest
  show "get_root (put_root x @ rest) = Some (x, rest)"
    by (simp add: get_root_def put_root_def u64_field.get_put)
next
  fix bs :: "u8 list"
  assume short: "length bs < 40"
  show "get_root bs = None"
  proof (rule ccontr)
    assume "get_root bs \<noteq> None"
    then obtain k b1 n b2 where "get_array bs = Some (k :: public_key, b1)" and "get_u64 b1 = Some (n, b2)"
      by (auto simp: get_root_def decode_key_def bind_eq_Some_conv)
    then show False
      using short by (auto dest!: array_field.get_SomeD u64_field.get_SomeD)
  qed
next
  fix bs :: "u8 list"
  assume "40 \<le> length bs"
  moreover from this obtain k where "(get_array bs :: (public_key \<times> u8 list) option) = Some (k, drop 32 bs)"
    using array_field.get_enough [where 'n = 32, of bs] by auto
  moreover obtain n where "get_u64 (drop 32 bs) = Some (n, drop 8 (drop 32 bs))"
    using u64_field.get_enough [of "drop 32 bs"] calculation(1) by (auto simp: le_diff_conv2)
  ultimately show "\<exists>x. get_root bs = Some (x, drop 40 bs)"
    by (simp add: get_root_def decode_key_def)
qed (simp add: put_root_def array_field.length_put u64_field.length_put)

interpretation signature_field: field_codec put_signature get_signature 104
proof unfold_locales
  fix x rest
  show "get_signature (put_signature x @ rest) = Some (x, rest)"
    by (simp add: get_signature_def put_signature_def u64_field.get_put)
next
  fix bs :: "u8 list"
  assume short: "length bs < 104"
  show "get_signature bs = None"
  proof (rule ccontr)
    assume "get_signature bs \<noteq> None"
    then obtain k b1 p b2 sg b3 where "get_array bs = Some (k :: public_key, b1)"
      and "get_u64 b1 = Some (p, b2)" and "get_array b2 = Some (sg :: signature, b3)"
      by (auto simp: get_signature_def decode_key_def decode_signature_def bind_eq_Some_conv)
    then show False
      using short by (auto dest!: array_field.get_SomeD u64_field.get_SomeD)
  qed
next
  fix bs :: "u8 list"
  assume long: "104 \<le> length bs"
  then obtain k where "(get_array bs :: (public_key \<times> u8 list) option) = Some (k, drop 32 bs)"
    using array_field.get_enough [where 'n = 32, of bs] by auto
  moreover obtain n where "get_u64 (drop 32 bs) = Some (n, drop 40 bs)"
    using u64_field.get_enough [of "drop 32 bs"] long by (auto simp: le_diff_conv2)
  moreover obtain sg where "(get_array (drop 40 bs) :: (signature \<times> u8 list) option) = Some (sg, drop 104 bs)"
    using array_field.get_enough [where 'n = 64, of "drop 40 bs"] long by (auto simp: le_diff_conv2)
  ultimately show "\<exists>x. get_signature bs = Some (x, drop 104 bs)"
    by (simp add: get_signature_def decode_key_def decode_signature_def)
qed (simp add: put_signature_def array_field.length_put u64_field.length_put)

interpretation coordinates_stream: stream_codec put_coordinates get_coordinates "\<lambda>c. length c < 65536"
  by unfold_locales
    (simp add: put_coordinates_def get_coordinates_def u16_field.get_put unat_of_nat_small
      u64_field.get_many_all)

text \<open>The laws of all fields, which rewrite a decoder applied to what the encoder wrote.\<close>

lemmas field_laws = u8_field.get_put u16_field.get_put u32_field.get_put u64_field.get_put
  root_field.get_put signature_field.get_put coordinates_stream.get_put
  u64_field.get_many_all signature_field.get_many_all

lemmas field_lengths = u8_field.length_put u16_field.length_put u32_field.length_put
  u64_field.length_put root_field.length_put signature_field.length_put array_field.length_put
  u64_field.length_concat_put signature_field.length_concat_put

section \<open>The header\<close>

lemma FRAME_MAGIC_BYTES_put: "FRAME_MAGIC_BYTES = put_u32 0x70696e65"
  by code_simp

lemma length_FRAME_MAGIC_BYTES [simp]: "length FRAME_MAGIC_BYTES = 4"
  by (simp add: FRAME_MAGIC_BYTES_def)

lemma length_frame_header [simp]: "length (frame_header ty len) = 10"
  by (simp add: frame_header_def field_lengths)

lemma decode_header_any:
  "decode now (frame_header ty len @ rest) =
     do { body_len \<leftarrow> checked_sub len 10;
          if length rest < unat body_len then
            Some (Inl (DecodingError ''Did not receive enough bytes''), rest)
          else decode_body now ty len rest }"
proof -
  have ne: "frame_header ty len @ rest \<noteq> []"
    by (simp add: frame_header_def FRAME_MAGIC_BYTES_def)
  have magic: "take 4 (frame_header ty len) = FRAME_MAGIC_BYTES"
    by (simp add: frame_header_def)
  have read: "get_u32 (frame_header ty len @ rest) =
      Some (0x70696e65, put_u8 0 @ put_u8 ty @ put_u16 0 @ put_u16 len @ rest)"
    by (simp add: frame_header_def FRAME_MAGIC_BYTES_put field_laws)
  have extra: "put_u16 0 = put_u8 0 @ put_u8 0"
    by code_simp
  show ?thesis
    by (simp add: decode_def ne magic read extra field_laws del: append_is_Nil_conv)
qed

lemma decode_header:
  assumes "10 \<le> len" and "len < 65536"
  shows "decode now (frame_header ty (of_nat len) @ rest) =
    (if length rest < len - 10 then
       Some (Inl (DecodingError ''Did not receive enough bytes''), rest)
     else decode_body now ty (of_nat len) rest)"
proof -
  have u: "unat (of_nat len :: u16) = len"
    using assms by (simp add: unat_of_nat_small)
  have "checked_sub (of_nat len :: u16) 10 = Some (of_nat len - 10)"
    using u assms by (simp add: checked_sub_def word_le_nat_alt)
  moreover from this have "unat (of_nat len - 10 :: u16) = len - 10"
    using unat_checked_sub u by fastforce
  ultimately show ?thesis
    by (simp add: decode_header_any)
qed

section \<open>Round trip\<close>

text \<open>
  What a decoded frame looks like: the receive time and order of an announcement are not sent;
  the decoder stamps them.
\<close>

fun decoded_as :: "system_time \<Rightarrow> frame \<Rightarrow> frame" where
  "decoded_as now (TreeAnnouncement a) =
     TreeAnnouncement (a\<lparr>ann_receive_time := now, ann_receive_order := 0\<rparr>)"
| "decoded_as now f = f"

text \<open>
  The frames the codec transports: their length fits the 16-bit length field, and a tree
  packet has as many source as destination coordinates.
\<close>

fun encodable :: "frame \<Rightarrow> bool" where
  "encodable (TreeRouted p) \<longleftrightarrow> frame_len (TreeRouted p) < 65536 \<and>
     length (tp_source_coordinates p) = length (tp_destination_coordinates p)"
| "encodable f \<longleftrightarrow> frame_len f < 65536"

lemma encodable_frame_len: "encodable f \<Longrightarrow> frame_len f < 65536"
  by (cases f) simp_all

lemma frame_len_ge_10: "10 \<le> frame_len f"
  by (cases f) simp_all

lemma length_put_coordinates: "length (put_coordinates c) = 2 + 8 * length c"
  by (simp add: put_coordinates_def field_lengths)

text \<open>The length field counts all bytes of a frame but the 64 bytes of each signature.\<close>

fun signature_count :: "frame \<Rightarrow> nat" where
  "signature_count (TreeAnnouncement a) = length (ann_signatures a)"
| "signature_count _ = 0"

lemma length_encode_body: "10 + length (encode_body f) = frame_len f + 64 * signature_count f"
  by (cases f) (simp_all add: field_lengths length_put_coordinates)

lemma length_encode_frame: "length (encode_frame f) = frame_len f + 64 * signature_count f"
  using length_encode_body [of f] by (simp add: encode_frame_def)

lemma checked_sub_of_nat:
  "n < 2 ^ LENGTH('a) \<Longrightarrow> m \<le> n \<Longrightarrow>
    checked_sub (of_nat n) (of_nat m :: 'a::len word) = Some (of_nat (n - m))"
  by (simp add: checked_sub_def word_le_nat_alt unat_of_nat_small)

lemma checked_mul_of_nat:
  "n * m < 2 ^ LENGTH('a) \<Longrightarrow> n < 2 ^ LENGTH('a) \<Longrightarrow> m < 2 ^ LENGTH('a) \<Longrightarrow>
    checked_mul (of_nat n) (of_nat m :: 'a::len word) = Some (of_nat (n * m))"
  by (simp add: checked_mul_def unat_of_nat_small)

lemma decode_tree_packet_encode:
  assumes src: "length src = n" and dest: "length dest = n"
    and len: "len = 14 + 16 * n + length payload" "len < 65536"
  shows "decode_tree_packet (of_nat len) (put_coordinates dest @ put_coordinates src @ payload @ rest) =
    Some (TreeRouted \<lparr>tp_source_coordinates = src, tp_destination_coordinates = dest, tp_payload = payload\<rparr>,
      rest)"
proof -
  have l1: "checked_sub (of_nat len :: u16) 10 = Some (of_nat (len - 10))"
    using checked_sub_of_nat [where 'a = 16, of len 10] len by simp
  have l2: "checked_sub (of_nat (len - 10) :: u16) 4 = Some (of_nat (len - 14))"
    using checked_sub_of_nat [where 'a = 16, of "len - 10" 4] len by simp
  have d8: "checked_mul (of_nat n :: u16) 8 = Some (of_nat (n * 8))"
    using checked_mul_of_nat [where 'a = 16, of n 8] len by simp
  have l3: "checked_sub (of_nat (len - 14) :: u16) (of_nat (n * 8)) = Some (of_nat (len - 14 - n * 8))"
    using checked_sub_of_nat [where 'a = 16, of "len - 14" "n * 8"] len by simp
  have "len - 14 - n * 8 - n * 8 = length payload"
    using len by simp
  then have l4: "checked_sub (of_nat (len - 14 - n * 8) :: u16) (of_nat (n * 8)) = Some (of_nat (length payload))"
    using checked_sub_of_nat [where 'a = 16, of "len - 14 - n * 8" "n * 8"] len by simp
  have n: "unat (of_nat n :: u16) = n" and p: "unat (of_nat (length payload) :: u16) = length payload"
    using len by (simp_all add: unat_of_nat_small)
  have many: "get_many get_u64 n (concat (map put_u64 src) @ r) = Some (src, r)"
    "get_many get_u64 n (concat (map put_u64 dest) @ r) = Some (dest, r)" for r
    using u64_field.get_many_all [of src r] u64_field.get_many_all [of dest r] src dest by simp_all
  show ?thesis
    unfolding decode_tree_packet_def put_coordinates_def src dest
    by (simp only: append_assoc field_laws bind.simps case_prod_conv n many l1 l2 d8 l3 l4 p)
      (simp add: get_many_u8)
qed

lemma decode_snek_packet_encode:
  assumes "74 + length payload < 65536"
  shows "decode_snek_packet (of_nat (74 + length payload))
      (put_array dk @ put_array sk @ payload @ rest) =
    Some (SnekRouted \<lparr>sp_destination_key = dk, sp_source_key = sk, sp_payload = payload\<rparr>, rest)"
proof -
  have l1: "checked_sub (of_nat (74 + length payload) :: u16) 10 = Some (of_nat (64 + length payload))"
    using checked_sub_of_nat [where 'a = 16, of "74 + length payload" 10] assms by simp
  have l2: "checked_sub (of_nat (64 + length payload) :: u16) 64 = Some (of_nat (length payload))"
    using checked_sub_of_nat [where 'a = 16, of "64 + length payload" 64] assms by simp
  have p: "unat (of_nat (length payload) :: u16) = length payload"
    using assms by (simp add: unat_of_nat_small)
  show ?thesis
    unfolding decode_snek_packet_def
    by (simp only: decode_key_put bind.simps case_prod_conv l1 l2 p) (simp add: get_many_u8)
qed

lemma decode_body_encode:
  assumes "encodable f"
  shows "decode_body now (frame_type f) (of_nat (frame_len f)) (encode_body f @ rest) =
    Some (Inr (Some (decoded_as now f)), rest)"
proof (cases f)
  case (TreeRouted p)
  with assms show ?thesis
    using decode_tree_packet_encode [of "tp_source_coordinates p" _ "tp_destination_coordinates p" "frame_len f" "tp_payload p" rest]
    by (simp add: decode_body_def)
next
  case (SnekRouted p)
  with assms show ?thesis
    using decode_snek_packet_encode [of "sp_payload p" "sp_destination_key p" "sp_source_key p" rest]
    by (simp add: decode_body_def)
next
  case (TreeAnnouncement a)
  with assms show ?thesis
    by (cases a) (simp add: decode_body_def decode_tree_announcement_def field_laws unat_of_nat_small)
next
  case (SnekBootstrap p)
  with assms show ?thesis
    by (cases p) (simp add: decode_body_def decode_bootstrap_def field_laws)
next
  case (SnekBootstrapACK p)
  with assms show ?thesis
    by (cases p) (simp add: decode_body_def decode_bootstrap_ack_def field_laws)
next
  case (SnekSetup p)
  with assms show ?thesis
    by (cases p) (simp add: decode_body_def decode_setup_def field_laws)
next
  case (SnekSetupACK p)
  with assms show ?thesis
    by (cases p) (simp add: decode_body_def decode_setup_ack_def field_laws)
next
  case (SnekTeardown p)
  with assms show ?thesis
    by (cases p) (simp add: decode_body_def decode_teardown_def field_laws)
qed

lemma decode_encode_frame:
  assumes "encodable f"
  shows "decode now (encode_frame f @ rest) = Some (Inr (Some (decoded_as now f)), rest)"
proof -
  have "\<not> length (encode_body f @ rest) < frame_len f - 10"
    using length_encode_body [of f] by simp
  then show ?thesis
    using decode_header [OF frame_len_ge_10 encodable_frame_len, OF assms, of now "frame_type f" "encode_body f @ rest"]
      decode_body_encode [OF assms, of now rest]
    by (simp add: encode_frame_def)
qed

text \<open>
  C8: round trip. Encoding a transportable frame into an empty buffer succeeds, and decoding a
  buffer that starts with those bytes gives the frame back, with the receive time of an
  announcement set by the decoder, and leaves exactly the bytes that follow; into a buffer
  that is not empty, encoding fails and changes nothing.
\<close>

theorem codec_roundtrip:
  assumes "encodable f"
  shows "fst (encode f []) = Inr () \<and>
    decode now (snd (encode f []) @ rest) = Some (Inr (Some (decoded_as now f)), rest) \<and>
    (dst \<noteq> [] \<longrightarrow>
      encode f dst = (Inl (EncodingError ''Buffer to write to is not empty''), dst))"
  using decode_encode_frame [OF assms, of now rest] by (simp add: encode_def)

definition example_announcement :: tree_announcement where
  "example_announcement = announce_along example_crypto (root_announcement (Root (repeat_byte 9) 4) 7)
     [(repeat_byte 9, 2), (repeat_byte 5, 3)]"

lemma frame_len_example_announcement [simp]: "frame_len (TreeAnnouncement example_announcement) = 132"
  by (simp add: example_announcement_def)

theorem codec_roundtrip_witness:
  "decode 20 (encode_frame (TreeAnnouncement example_announcement) @ [1, 2]) =
     Some (Inr (Some (TreeAnnouncement (example_announcement\<lparr>ann_receive_time := 20, ann_receive_order := 0\<rparr>))), [1, 2])"
  using codec_roundtrip [of "TreeAnnouncement example_announcement" 20 "[1, 2]" "[]"]
  by (simp add: encode_def del: frame_len.simps)

section \<open>Frames that arrive in pieces\<close>

lemma take_encode_frame:
  "10 \<le> n \<Longrightarrow> take n (encode_frame f) =
    frame_header (frame_type f) (of_nat (frame_len f)) @ take (n - 10) (encode_body f)"
  by (simp add: encode_frame_def)

lemma decode_header_part:
  assumes n: "n < 10"
  shows "decode now (take n (encode_frame f)) = Some (Inr None, take n (encode_frame f))"
proof -
  have "take 4 (take n (encode_frame f)) = FRAME_MAGIC_BYTES" if "4 \<le> n"
    using that by (simp add: encode_frame_def frame_header_def min_def)
  moreover have "length (take n (encode_frame f)) = n"
    using n length_encode_frame [of f] frame_len_ge_10 [of f] by simp
  ultimately show ?thesis
    using n by (auto simp: decode_def simp del: take_take)
qed

text \<open>
  The length field of an announcement leaves out the signature bytes, so the decoder's
  check for missing bytes passes too early and reading the signatures runs past the end of
  the buffer, which panics.
\<close>

theorem partial_announcement_panics:
  assumes "encodable (TreeAnnouncement a)"
    and "frame_len (TreeAnnouncement a) \<le> n"
    and "n < frame_len (TreeAnnouncement a) + 64 * length (ann_signatures a)"
  shows "decode now (take n (encode_frame (TreeAnnouncement a))) = None"
proof -
  let ?f = "TreeAnnouncement a" and ?k = "length (ann_signatures a)"
  let ?sigs = "concat (map put_signature (ann_signatures a))"
  have len: "length (take (n - 10) (encode_body ?f)) = n - 10"
    using assms length_encode_body [of ?f] by simp
  have body: "take (n - 10) (encode_body ?f) =
      put_root (ann_root a) @ put_u16 (of_nat ?k) @ take (n - 52) ?sigs"
    using assms(2) by (simp add: field_lengths)
  have "length (take (n - 52) ?sigs) < ?k * 104"
    using assms by (simp add: field_lengths)
  then have short: "get_many get_signature ?k (take (n - 52) ?sigs) = None"
    by (rule signature_field.get_many_short)
  have k: "unat (of_nat ?k :: u16) = ?k"
    using assms(1) by (simp add: unat_of_nat_small)
  have "decode_body now (frame_type ?f) (of_nat (frame_len ?f)) (take (n - 10) (encode_body ?f)) = None"
    by (simp only: body)
      (simp add: decode_body_def decode_tree_announcement_def field_laws k short)
  moreover have "\<not> length (take (n - 10) (encode_body ?f)) < frame_len ?f - 10"
    using len assms by linarith
  moreover have "10 \<le> n"
    using assms(2) by simp
  ultimately show ?thesis
    using decode_header [OF frame_len_ge_10 encodable_frame_len [OF assms(1)], of now "frame_type ?f"]
    by (simp only: take_encode_frame if_False)
qed

theorem partial_announcement_panics_witness:
  "decode 20 (take 200 (encode_frame (TreeAnnouncement example_announcement))) = None"
proof -
  have "length (ann_signatures example_announcement) = 2"
    by (simp add: example_announcement_def)
  then show ?thesis
    using partial_announcement_panics [of example_announcement 200 20]
    by (simp del: frame_len.simps)
qed

text \<open>
  C38: a frame that has arrived only in part is not waited for. Whatever part of it the buffer
  holds: with fewer than the ten header bytes the decoder asks for more and keeps the buffer.
  Once the header is complete, but not as many bytes as its length field says, it fails with a
  decoding error and has already dropped the header, so the frame can no longer be decoded when
  its rest arrives. The length field of an announcement leaves out the bytes of its signatures;
  if the bytes it counts have arrived but not all of the signatures have, the decoder panics.
\<close>

theorem partial_frame_decoding:
  assumes "encodable f" and "n < length (encode_frame f)"
  shows "decode now (take n (encode_frame f)) =
    (if n < 10 then Some (Inr None, take n (encode_frame f))
     else if n < frame_len f then
       Some (Inl (DecodingError ''Did not receive enough bytes''), drop 10 (take n (encode_frame f)))
     else None)"
proof -
  consider "n < 10" | "10 \<le> n" "n < frame_len f" | a where "f = TreeAnnouncement a" "frame_len f \<le> n"
    using assms(2) by (cases f) (force simp: length_encode_frame)+
  then show ?thesis
  proof cases
    case 1
    then show ?thesis by (simp add: decode_header_part)
  next
    case 2
    then have "length (take (n - 10) (encode_body f)) < frame_len f - 10"
      by auto
    then show ?thesis
      using 2 decode_header [OF frame_len_ge_10 encodable_frame_len [OF assms(1)], of now "frame_type f"]
      by (simp only: take_encode_frame) simp
  next
    case 3
    then have "decode now (take n (encode_frame f)) = None"
      using partial_announcement_panics [of a n now] assms by (simp add: length_encode_frame del: frame_len.simps)
    then show ?thesis
      using 3 frame_len_ge_10 [of f] by simp
  qed
qed

theorem partial_frame_decoding_witness:
  "decode 20 (take 100 (encode_frame (TreeAnnouncement example_announcement))) =
     Some (Inl (DecodingError ''Did not receive enough bytes''),
       drop 10 (take 100 (encode_frame (TreeAnnouncement example_announcement)))) \<and>
   decode 20 (take 200 (encode_frame (TreeAnnouncement example_announcement))) = None"
proof -
  have "length (ann_signatures example_announcement) = 2"
    by (simp add: example_announcement_def)
  then show ?thesis
    using partial_frame_decoding [of "TreeAnnouncement example_announcement" 100 20]
      partial_frame_decoding [of "TreeAnnouncement example_announcement" 200 20]
    by (simp add: length_encode_frame del: frame_len.simps)
qed

section \<open>Frames the codec does not transport\<close>

text \<open>
  C40: oversized frames. When the length of a frame exceeds 16 bits by less than the header,
  its length field wraps to a value below ten, and decoding it panics on the subtraction of
  the header length. A session accepts such payloads.
\<close>

theorem oversized_frame_panics:
  assumes "65536 \<le> frame_len f" and "frame_len f < 65546"
  shows "fst (encode f []) = Inr () \<and> decode now (snd (encode f []) @ rest) = None"
proof -
  have "unat (of_nat (frame_len f) :: u16) = frame_len f - 65536"
    using assms by (simp add: unat_of_nat take_bit_nat_def mod_if)
  then have "checked_sub (of_nat (frame_len f) :: u16) 10 = None"
    using assms by (simp add: checked_sub_def word_le_nat_alt)
  then show ?thesis
    by (simp add: encode_def encode_frame_def decode_header_any)
qed

theorem oversized_frame_panics_witness:
  "decode 0 (encode_frame (SnekRouted \<lparr>sp_destination_key = repeat_byte 1, sp_source_key = repeat_byte 2,
      sp_payload = replicate 65465 0\<rparr>)) = None"
  using oversized_frame_panics [of "SnekRouted \<lparr>sp_destination_key = repeat_byte 1,
      sp_source_key = repeat_byte 2, sp_payload = replicate 65465 0\<rparr>" 0 "[]"]
  by (simp add: encode_def)

text \<open>
  A decoded tree packet always has as many source as destination coordinates, whatever
  the bytes were, because the loop that reads the source runs to the destination's length. So
  a packet between nodes at different depths never arrives as it was sent.
\<close>

theorem decoded_tree_packet_lengths:
  assumes "decode now src = Some (Inr (Some (TreeRouted q)), rest)"
  shows "length (tp_source_coordinates q) = length (tp_destination_coordinates q)"
proof -
  obtain ty len src' where "decode_body now ty len src' = Some (Inr (Some (TreeRouted q)), rest)"
    using assms by (auto simp: decode_def bind_eq_Some_conv split: if_splits)
  then obtain rest' where "decode_tree_packet len src' = Some (TreeRouted q, rest')"
    by (auto simp: decode_body_def Let_def decode_tree_announcement_def decode_bootstrap_def
        decode_bootstrap_ack_def decode_setup_def decode_setup_ack_def decode_teardown_def
        decode_snek_packet_def bind_eq_Some_conv split: if_splits)
  then show ?thesis
    by (auto simp: decode_tree_packet_def bind_eq_Some_conv dest!: u64_field.get_many_SomeD)
qed

theorem decoded_tree_packet_lengths_witness:
  "length (tp_source_coordinates \<lparr>tp_source_coordinates = [4 :: port], tp_destination_coordinates = [3],
      tp_payload = [1]\<rparr>) = 1"
  using decoded_tree_packet_lengths
      [OF decode_encode_frame [of "TreeRouted \<lparr>tp_source_coordinates = [4], tp_destination_coordinates = [3],
         tp_payload = [1]\<rparr>" 0 "[]", simplified]]
  by simp

end
