(* ===== verification/Node_Network.thy ===== *)
theory Node_Network
  imports Honest_Node Network Wire_Frame
begin

text \<open>
  A network of routers as a step relation: each node runs its own steps, and what it hears from
  another is what that other said. The network may delay, drop, repeat and reorder frames. The
  lemmas show what the announcements that travel through such a network say about it.
\<close>

section \<open>The network\<close>

text \<open>
  The state of every node, and the announcements nodes sent over connections that were not yet
  known to belong to a peer; \<open>sent\<close> records all others with the peer they were for.
\<close>

record net =
  nodes :: network
  greetings :: "(public_key \<times> tree_announcement) list"

definition said :: "net \<Rightarrow> public_key \<Rightarrow> public_key \<Rightarrow> frame \<Rightarrow> bool" where
  "said N q k f \<longleftrightarrow> (k, f) \<in> set (sent (nodes N q)) \<or> (\<exists>b. f = TreeAnnouncement b \<and> (q, b) \<in> set (greetings N))"

text \<open>
  What node \<open>k\<close> of the network \<open>K\<close> may hear: from a node of the network what it said, as the codec
  decodes it at some time, and from its own client packets.
\<close>

definition hears :: "public_key set \<Rightarrow> net \<Rightarrow> public_key \<Rightarrow> hearing" where
  "hears K N k q f \<longleftrightarrow> q \<in> K \<and> (\<exists>g now. said N q k g \<and> f = decoded_as now g) \<or> q = k \<and> is_traffic f"

text \<open>The codec carries the root and the signatures of an announcement and nothing else.\<close>

definition same_words :: "tree_announcement \<Rightarrow> tree_announcement \<Rightarrow> bool" where
  "same_words a b \<longleftrightarrow> ann_root a = ann_root b \<and> ann_signatures a = ann_signatures b"

definition told :: "public_key set \<Rightarrow> net \<Rightarrow> public_key \<Rightarrow> public_key \<Rightarrow> tree_announcement \<Rightarrow> bool" where
  "told K N k q a \<longleftrightarrow> q \<in> K \<and> (\<exists>b. said N q k (TreeAnnouncement b) \<and> same_words a b)"

lemma hears_told: "hears K N k q (TreeAnnouncement a) \<Longrightarrow> told K N k q a"
proof -
  assume "hears K N k q (TreeAnnouncement a)"
  then obtain g now where g: "q \<in> K" "said N q k g" "TreeAnnouncement a = decoded_as now g"
    by (auto simp: hears_def)
  then obtain b where "g = TreeAnnouncement b"
    by (cases g) auto
  with g show ?thesis
    by (auto simp: told_def same_words_def)
qed

definition greeting :: "crypto \<Rightarrow> system_time \<Rightarrow> port \<Rightarrow> router_state \<Rightarrow> tree_announcement" where
  "greeting C now p r = append_signature C (current_announcement now r) (private_key r) p"

inductive net_step :: "crypto \<Rightarrow> public_key set \<Rightarrow> net \<Rightarrow> net \<Rightarrow> bool" for C K where
  greets: "k \<in> K \<Longrightarrow> p \<noteq> 0 \<Longrightarrow>
    net_step C K N (N\<lparr>greetings := (k, greeting C now p (nodes N k)) # greetings N\<rparr>)"
| acts: "k \<in> K \<Longrightarrow> heard_step C (hears K N k) (nodes N k) r \<Longrightarrow>
    net_step C K N (N\<lparr>nodes := (nodes N)(k := r)\<rparr>)"

inductive net_reachable :: "crypto \<Rightarrow> public_key set \<Rightarrow> (public_key \<Rightarrow> signing_key) \<Rightarrow> net \<Rightarrow> bool" for C K sk where
  net_start: "net_reachable C K sk \<lparr>nodes = \<lambda>k. new_router C (sk k), greetings = []\<rparr>"
| net_run: "net_reachable C K sk N \<Longrightarrow> net_step C K N N' \<Longrightarrow> net_reachable C K sk N'"

text \<open>Every node knows its key.\<close>

definition keyed :: "crypto \<Rightarrow> public_key set \<Rightarrow> (public_key \<Rightarrow> signing_key) \<Rightarrow> bool" where
  "keyed C K sk \<longleftrightarrow> (\<forall>k \<in> K. verification_key C (sk k) = k)"

section \<open>Every node is a router\<close>

lemma net_node_reachable: "net_reachable C K sk N \<Longrightarrow> reachable C (sk k) (nodes N k)"
proof (induction rule: net_reachable.induct)
  case (net_run N N')
  from net_run.hyps(2) show ?case
    by cases (auto intro: net_run.IH reach_step [OF net_run.IH] heard_step_router)
qed (simp add: reach_new)

section \<open>Every node is honest\<close>

definition net_honest :: "crypto \<Rightarrow> public_key set \<Rightarrow> (public_key \<Rightarrow> signing_key) \<Rightarrow> net \<Rightarrow> bool" where
  "net_honest C K sk N \<longleftrightarrow>
     (\<forall>k \<in> K. honest C (sk k) (told K N k) (nodes N k) (nodes N k)) \<and>
     (\<forall>(q, b) \<in> set (greetings N). q \<in> K \<and> signed_offer C (sk q) (sequence (nodes N q)) (told K N q) b)"

lemma told_grows:
  "told K N k q a \<Longrightarrow> set (sent (nodes N q)) \<subseteq> set (sent (nodes N' q)) \<Longrightarrow>
    set (greetings N) \<subseteq> set (greetings N') \<Longrightarrow> told K N' k q a"
  unfolding told_def said_def by blast

interpretation told_node: honest_node D sk "told K N k" r1 for D sk K N k r1
  by unfold_locales (auto simp: told_def same_words_def)

lemma net_honest_grows:
  assumes "net_honest C K sk N"
    and "\<And>k. k \<in> K \<Longrightarrow> honest C (sk k) (told K N k) (nodes N k) (nodes N' k)"
    and "set (greetings N) \<subseteq> set (greetings N')"
    and "\<And>q b. (q, b) \<in> set (greetings N') - set (greetings N) \<Longrightarrow>
      q \<in> K \<and> signed_offer C (sk q) (sequence (nodes N' q)) (told K N q) b"
  shows "net_honest C K sk N'"
proof -
  have sent: "set (sent (nodes N q)) \<subseteq> set (sent (nodes N' q))" "sequence (nodes N q) \<le> sequence (nodes N' q)"
    if "q \<in> K" for q
    using assms(2) [OF that] by (simp_all add: honest_def)
  have told: "told K N' k q a" if "told K N k q a" for k q a
  proof -
    have "q \<in> K"
      using that by (simp add: told_def)
    then show ?thesis
      using that sent(1) assms(3) by (intro told_grows [OF that])
  qed
  have "honest C (sk k) (told K N' k) (nodes N' k) (nodes N' k)" if "k \<in> K" for k
    by (rule honest_mono [OF honest_now [OF assms(2) [OF that]] told])
  moreover have "q \<in> K \<and> signed_offer C (sk q) (sequence (nodes N' q)) (told K N' q) b"
    if "(q, b) \<in> set (greetings N')" for q b
  proof (cases "(q, b) \<in> set (greetings N)")
    case True
    then show ?thesis
      using assms(1) signed_offer_mono [OF _ sent(2) told] by (auto simp: net_honest_def)
  next
    case False
    then show ?thesis
      using that assms(4) [of q b] signed_offer_mono [OF _ order_refl told] by auto
  qed
  ultimately show ?thesis
    unfolding net_honest_def by blast
qed

lemma net_step_honest:
  assumes "net_step C K N N'" and honest: "net_honest C K sk N"
  shows "net_honest C K sk N'"
  using assms(1)
proof cases
  case (greets k p now)
  have k: "honest C (sk k) (told K N k) (nodes N k) (nodes N k)"
    using honest greets(2) by (simp add: net_honest_def)
  have "greeting C now p (nodes N k) = append_signature C (current_announcement now (nodes N k)) (sk k) p"
    using honest_keys [OF k] by (simp add: greeting_def)
  then have signed: "signed_offer C (sk k) (sequence (nodes N k)) (told K N k) (greeting C now p (nodes N k))"
    using honest_current [OF k, of now] greets(3) unfolding signed_offer_def by blast
  show ?thesis
    unfolding greets(1)
    by (rule net_honest_grows [OF honest]) (use honest signed greets(2) in \<open>auto simp: net_honest_def\<close>)
next
  case (acts k r)
  have "heard_step C (\<lambda>q f. \<forall>a. f = TreeAnnouncement a \<longrightarrow> told K N k q a) (nodes N k) r"
    using acts(3) by (rule heard_step_mono) (blast intro: hears_told)
  moreover have "honest C (sk k) (told K N k) (nodes N k) (nodes N k)"
    using honest acts(2) by (simp add: net_honest_def)
  ultimately have step: "honest C (sk k) (told K N k) (nodes N k) r"
    by (rule told_node.honest_router.step_keeps)
  show ?thesis
    unfolding acts(1)
    by (rule net_honest_grows [OF honest]) (use honest step in \<open>auto simp: net_honest_def\<close>)
qed

lemma net_reachable_honest: "net_reachable C K sk N \<Longrightarrow> net_honest C K sk N"
proof (induction rule: net_reachable.induct)
  case net_start
  have "honest C (sk k) G (new_router C (sk k)) (new_router C (sk k))" for k G
    by (rule honest_new)
  then show ?case by (simp add: net_honest_def)
qed (rule net_step_honest)

section \<open>What announcements say about the network\<close>

text \<open>The announcement as it was after the first \<open>n\<close> signatures.\<close>

definition first_hops :: "nat \<Rightarrow> tree_announcement \<Rightarrow> tree_announcement" where
  "first_hops n a = a\<lparr>ann_signatures := take n (ann_signatures a)\<rparr>"

definition signers :: "tree_announcement \<Rightarrow> public_key list" where
  "signers a = map signing_public_key (ann_signatures a)"

lemma signers_append [simp]: "signers (append_signature C b key p) = signers b @ [verification_key C key]"
  by (simp add: signers_def)

lemma same_words_signers: "same_words a b \<Longrightarrow> signers a = signers b \<and> ann_root a = ann_root b"
  by (simp add: same_words_def signers_def)

lemma told_origin:
  assumes "net_honest C K sk N" and "keyed C K sk" and "told K N k q a"
  shows "\<exists>b p. q \<in> K \<and> same_words a (append_signature C b (sk q) p) \<and> p \<noteq> 0 \<and>
    offer q (sequence (nodes N q)) (told K N q) b"
proof -
  obtain b where b: "q \<in> K" "said N q k (TreeAnnouncement b)" "same_words a b"
    using assms(3) by (auto simp: told_def)
  then have "signed_offer C (sk q) (sequence (nodes N q)) (told K N q) b"
    using assms(1) by (auto simp: said_def net_honest_def honest_def)
  then show ?thesis
    using b assms(2) by (auto simp: signed_offer_def keyed_def)
qed

text \<open>
  The path an announcement names is one it took: each of its signers but the last told the next
  one the announcement as it was then, and the first is its root, which has issued its sequence
  number.
\<close>

definition path_taken :: "public_key set \<Rightarrow> net \<Rightarrow> tree_announcement \<Rightarrow> bool" where
  "path_taken K N a \<longleftrightarrow>
     signers a \<noteq> [] \<and> set (signers a) \<subseteq> K \<and>
     hd (signers a) = root_public_key (ann_root a) \<and>
     root_sequence_number (ann_root a) \<le> sequence (nodes N (root_public_key (ann_root a))) \<and>
     (\<forall>i. Suc i < length (signers a) \<longrightarrow> told K N (signers a ! Suc i) (signers a ! i) (first_hops (Suc i) a))"

lemma told_path_taken:
  assumes honest: "net_honest C K sk N" and keyed: "keyed C K sk"
  shows "told K N k q a \<Longrightarrow> path_taken K N a \<and> last (signers a) = q"
proof (induction "length (ann_signatures a)" arbitrary: k q a rule: less_induct)
  case less
  obtain b p where origin: "q \<in> K" "same_words a (append_signature C b (sk q) p)"
    and b: "offer q (sequence (nodes N q)) (told K N q) b"
    using told_origin [OF honest keyed less.prems] by blast
  then have signers: "signers a = signers b @ [q]" and root: "ann_root a = ann_root b"
    and sigs: "\<exists>s. ann_signatures a = ann_signatures b @ [s]"
    using keyed by (auto simp: same_words_def signers_def keyed_def)
  show ?case
  proof (cases "ann_signatures b = []")
    case True
    then show ?thesis
      using b origin(1) signers root by (simp add: path_taken_def offer_def signers_def)
  next
    case False
    then obtain w where w: "told K N q w b"
      using b by (auto simp: offer_def)
    have IH: "path_taken K N b" "last (signers b) = w"
      using less.hyps [OF _ w] sigs by auto
    have len: "length (signers b) = length (ann_signatures b)"
      by (simp add: signers_def)
    have "told K N (signers a ! Suc i) (signers a ! i) (first_hops (Suc i) a)" if i: "Suc i < length (signers a)" for i
    proof (cases "Suc i < length (signers b)")
      case True
      then have "same_words (first_hops (Suc i) a) (first_hops (Suc i) b)"
        using sigs root len by (auto simp: first_hops_def same_words_def)
      then show ?thesis
        using IH(1) True signers by (auto simp: path_taken_def nth_append told_def same_words_def)
    next
      case False
      then have i: "Suc i = length (signers b)"
        using i signers by simp
      then have "signers b ! i = w"
        using IH last_conv_nth [of "signers b"] by (simp add: path_taken_def flip: i)
      then have "signers a ! i = w" "signers a ! Suc i = q"
        using signers i by (auto simp: nth_append)
      moreover have "same_words (first_hops (Suc i) a) b"
        using sigs root len i by (auto simp: first_hops_def same_words_def)
      ultimately show ?thesis
        using w by (auto simp: told_def same_words_def)
    qed
    then show ?thesis
      using IH(1) signers root origin(1) by (auto simp: path_taken_def)
  qed
qed

lemma told_checked:
  assumes honest: "net_honest C K sk N" and keyed: "keyed C K sk" and C: "crypto_correct C"
  shows "told K N k q a \<Longrightarrow> signatures_valid C (ann_root a) (ann_signatures a) \<and> 0 \<notin> set (coords a)"
proof (induction "length (ann_signatures a)" arbitrary: k q a rule: less_induct)
  case less
  obtain b p where origin: "same_words a (append_signature C b (sk q) p)" "p \<noteq> 0"
    and b: "offer q (sequence (nodes N q)) (told K N q) b"
    using told_origin [OF honest keyed less.prems] by blast
  have "signatures_valid C (ann_root b) (ann_signatures b) \<and> 0 \<notin> set (coords b)"
  proof (cases "ann_signatures b = []")
    case True
    then show ?thesis
      by (simp add: signatures_valid_def coords_def)
  next
    case False
    then obtain w where "told K N q w b"
      using b by (auto simp: offer_def)
    then show ?thesis
      using less.hyps [of b] origin(1) by (auto simp: same_words_def)
  qed
  then show ?case
    using append_signature_valid [OF C, of b "sk q" p] origin
    by (auto simp: same_words_def coords_def)
qed

text \<open>
  C4: announced paths are real. In any network of routers, after any steps of its nodes and with
  any delays, losses, repetitions and reordering of frames: whatever announcement a node may
  hear, its signers are nodes of the network, the first is its root, which has issued at least
  its sequence number, the last is the node it comes from, and each signer on the way has told
  the next one exactly the part of it that comes before.
\<close>

theorem announced_paths_real:
  assumes "net_reachable C K sk N" and "keyed C K sk" and "told K N k q a"
  shows "let ks = signers a; r = ann_root a
    in ks \<noteq> [] \<and> set ks \<subseteq> K \<and> hd ks = root_public_key r \<and> last ks = q \<and>
       root_sequence_number r \<le> sequence (nodes N (root_public_key r)) \<and>
       (\<forall>i. Suc i < length ks \<longrightarrow> told K N (ks ! Suc i) (ks ! i) (first_hops (Suc i) a))"
  using told_path_taken [OF net_reachable_honest [OF assms(1)] assms(2,3)]
  by (simp add: path_taken_def Let_def)

text \<open>
  C21: between honest nodes the integrity check is a loop check. Whatever announcement a node may
  hear from another in a network of routers, the check does not panic, and it fails exactly when
  the check for repeated signers does: signatures, ports, root and sender are always in order.
\<close>

theorem honest_announcements_checked:
  assumes "net_reachable C K sk N" and "keyed C K sk" and "crypto_correct C" and "told K N k q a"
  shows "is_clean C a q = Some (\<not> loop_detected (ann_signatures a))"
proof -
  have path: "path_taken K N a" "last (signers a) = q"
    using told_path_taken [OF net_reachable_honest [OF assms(1)] assms(2,4)] by simp_all
  then obtain s sigs where sigs: "ann_signatures a = s # sigs"
    by (cases "ann_signatures a") (auto simp: path_taken_def signers_def)
  moreover have "signing_public_key s = root_public_key (ann_root a)"
    "signing_public_key (last (ann_signatures a)) = q"
    using path sigs by (auto simp: path_taken_def signers_def last_map)
  moreover have "verify_signatures C (put_root (ann_root a)) (ann_signatures a)"
    "\<not> list_ex (\<lambda>s. destination_port s = 0) (ann_signatures a)"
    using told_checked [OF net_reachable_honest [OF assms(1)] assms(2,3,4)]
    by (auto simp: verify_signatures_valid coords_def list_ex_iff)
  ultimately show ?thesis
    by (simp add: is_clean_def)
qed

section \<open>Examples\<close>

text \<open>One node has greeted on a new connection.\<close>

definition example_net :: net where
  "example_net =
     \<lparr>nodes = \<lambda>k. new_router example_crypto k,
      greetings = [(repeat_byte 5, greeting example_crypto 7 3 (new_router example_crypto (repeat_byte 5)))]\<rparr>"

lemma example_net_reachable: "net_reachable example_crypto {repeat_byte 5} (\<lambda>k. k) example_net"
  using net_run [OF net_start greets [of "repeat_byte 5" "{repeat_byte 5}" 3 example_crypto
      "\<lparr>nodes = \<lambda>k. new_router example_crypto k, greetings = []\<rparr>" 7]]
  by (simp add: example_net_def)

lemma example_net_told:
  "told {repeat_byte 5} example_net k (repeat_byte 5)
     (greeting example_crypto 7 3 (new_router example_crypto (repeat_byte 5)))"
  by (auto simp: told_def said_def same_words_def example_net_def)

lemma example_keyed: "keyed example_crypto K (\<lambda>k. k)"
  by (simp add: keyed_def)

lemma example_greeting:
  "signers (greeting example_crypto 7 3 (new_router example_crypto (repeat_byte 5))) = [repeat_byte 5]"
  "\<not> loop_detected (ann_signatures (greeting example_crypto 7 3 (new_router example_crypto (repeat_byte 5))))"
  by (simp_all add: greeting_def current_announcement_def new_router_def tree_announcement_of_def signers_def
      loop_detected_def)

theorem announced_paths_real_witness:
  "set (signers (greeting example_crypto 7 3 (new_router example_crypto (repeat_byte 5)))) \<subseteq> {repeat_byte 5}"
  using announced_paths_real [OF example_net_reachable example_keyed example_net_told]
  by (simp only: Let_def)

theorem honest_announcements_checked_witness:
  "is_clean example_crypto (greeting example_crypto 7 3 (new_router example_crypto (repeat_byte 5))) (repeat_byte 5) = Some True"
  using honest_announcements_checked [OF example_net_reachable example_keyed example_crypto_correct example_net_told]
    example_greeting(2) by simp

end
