(* ===== verification/Two_Nodes.thy ===== *)
theory Two_Nodes
  imports Node_Network Router_Tests
begin

text \<open>
  Two routers on the network of \<open>Node_Network\<close>, run against each other: they meet, the one with
  the lower key follows the other in the tree, and its bootstrap, the ACK, the setup and the ACK
  of the setup link them in the snake. Every frame one of them hears is one the other sent.
\<close>

section \<open>Steps of a network of two\<close>

text \<open>The network of the nodes \<open>x\<close> and \<open>y\<close> can get to the states \<open>rx\<close> and \<open>ry\<close>.\<close>

definition pair_at ::
  "crypto \<Rightarrow> (public_key \<Rightarrow> signing_key) \<Rightarrow> (public_key \<times> tree_announcement) list \<Rightarrow>
   public_key \<Rightarrow> router_state \<Rightarrow> public_key \<Rightarrow> router_state \<Rightarrow> bool" where
  "pair_at C sk gs x rx y ry \<longleftrightarrow> x \<noteq> y \<and>
     net_reachable C {x, y} sk \<lparr>nodes = (\<lambda>k. new_router C (sk k))(x := rx, y := ry), greetings = gs\<rparr>"

lemma pair_swap: "pair_at C sk gs x rx y ry \<Longrightarrow> pair_at C sk gs y ry x rx"
  by (auto simp: pair_at_def insert_commute fun_upd_twist [of x y])

lemma pair_new: "x \<noteq> y \<Longrightarrow> pair_at C sk [] x (new_router C (sk x)) y (new_router C (sk y))"
proof -
  assume "x \<noteq> y"
  moreover have "(\<lambda>k. new_router C (sk k))(x := new_router C (sk x), y := new_router C (sk y)) = (\<lambda>k. new_router C (sk k))"
    by auto
  ultimately show ?thesis
    by (simp add: pair_at_def net_start)
qed

lemma pair_greets:
  assumes "pair_at C sk gs x rx y ry" and "p \<noteq> 0"
  shows "pair_at C sk ((x, greeting C now p rx) # gs) x rx y ry"
  using net_run [OF conjunct2 [OF assms(1) [unfolded pair_at_def]] greets [of x _ p _ _ now]] assms
  by (simp add: pair_at_def)

lemma pair_acts:
  assumes "pair_at C sk gs x rx y ry"
    and "\<And>N. nodes N y = ry \<Longrightarrow> greetings N = gs \<Longrightarrow> heard_step C (hears {x, y} N x) rx rx'"
  shows "pair_at C sk gs x rx' y ry"
proof -
  let ?N = "\<lparr>nodes = (\<lambda>k. new_router C (sk k))(x := rx, y := ry), greetings = gs\<rparr>"
  have "x \<noteq> y" and N: "net_reachable C {x, y} sk ?N"
    using assms(1) by (simp_all add: pair_at_def)
  moreover from this have "net_step C {x, y} ?N (?N\<lparr>nodes := (nodes ?N)(x := rx')\<rparr>)"
    using assms(2) by (intro acts) simp_all
  ultimately show ?thesis
    using net_run [OF N] by (simp add: pair_at_def fun_upd_twist)
qed

lemma pair_starts: "pair_at C sk gs x rx y ry \<Longrightarrow> pair_at C sk gs x (snd (start rx)) y ry"
  by (erule pair_acts) (rule heard_start)

lemma pair_ticks:
  "pair_at C sk gs x rx y ry \<Longrightarrow> env_crypto E = C \<Longrightarrow> snd (snek_tick E rx) = rx' \<Longrightarrow> pair_at C sk gs x rx' y ry"
  by (erule pair_acts) (auto intro: heard_snek)

text \<open>Over a new connection a node reads the greeting of the other.\<close>

lemma pair_connects:
  assumes "pair_at C sk gs x rx y ry" and "env_crypto E = C" and "(y, g) \<in> set gs"
    and "signing_public_key (last (ann_signatures g)) = y"
    and "snd (connect E u d (Some (Inr (decoded_as now (TreeAnnouncement g)))) rx) = rx'"
  shows "pair_at C sk gs x rx' y ry"
  using assms(1)
proof (rule pair_acts)
  fix N :: net assume "nodes N y = ry" "greetings N = gs"
  then have "hears {x, y} N x y (decoded_as now (TreeAnnouncement g))"
    using assms(3) by (auto simp: hears_def said_def simp del: decoded_as.simps)
  then have "heard_step C (hears {x, y} N x) rx (snd (connect E u d (Some (Inr (decoded_as now (TreeAnnouncement g)))) rx))"
    using assms(2,4) by (intro heard_connect) (auto simp: heard_first_def)
  then show "heard_step C (hears {x, y} N x) rx rx'"
    by (simp only: assms(5))
qed

lemma pair_hears:
  assumes "pair_at C sk gs x rx y ry" and "env_crypto E = C" and "(x, g) \<in> set (sent ry)"
    and "Peer_Loop y \<in> set (spawned rx)"
  and "snd (take_task E (Some (Inr (decoded_as now g))) (Peer_Loop y) rx) = rx'"
  shows "pair_at C sk gs x rx' y ry"
  using assms(1)
proof (rule pair_acts)
  fix N :: net assume "nodes N y = ry" "greetings N = gs"
  then have "hears {x, y} N x y (decoded_as now g)"
    using assms(3) by (auto simp: hears_def said_def)
  then have "heard_step C (hears {x, y} N x) rx (snd (take_task E (Some (Inr (decoded_as now g))) (Peer_Loop y) rx))"
    using assms(2,4) by (intro heard_run) (auto simp: heard_defs)
  then show "heard_step C (hears {x, y} N x) rx rx'"
    by (simp only: assms(5))
qed

section \<open>What the two nodes do\<close>

text \<open>A node that has met one peer over its first port.\<close>

definition met ::
  "crypto \<Rightarrow> signing_key \<Rightarrow> public_key \<Rightarrow> tree_announcement \<Rightarrow> sequence_number \<Rightarrow> (public_key \<times> frame) list \<Rightarrow> router_state" where
  "met C a q ann n fs = (new_router C a)\<lparr>running := True, upload_connections := [(q, 0)],
     download_connections := [(q, 0)], ports := [(1, Some q)], announcements := [(q, ann)],
     ordering := n, sent := fs, spawned := [Peer_Loop q]\<rparr>"

abbreviation stamped_as :: "tree_announcement \<Rightarrow> system_time \<Rightarrow> sequence_number \<Rightarrow> tree_announcement" where
  "stamped_as a now n \<equiv> a\<lparr>ann_receive_time := now, ann_receive_order := n\<rparr>"

definition own_root :: "crypto \<Rightarrow> system_time \<Rightarrow> signing_key \<Rightarrow> tree_announcement" where
  "own_root C now a = append_signature C \<lparr>ann_root = root_of (verification_key C a), ann_signatures = [],
     ann_receive_time = now, ann_receive_order = 0\<rparr> a 1"

definition met_low :: "crypto \<Rightarrow> signing_key \<Rightarrow> signing_key \<Rightarrow> system_time \<Rightarrow> (public_key \<times> frame) list \<Rightarrow> router_state" where
  "met_low C a b now fs =
     (met C a (verification_key C b) (stamped_as (own_root C now b) now 1) 1 fs)\<lparr>parent := verification_key C b\<rparr>"

definition met_high :: "crypto \<Rightarrow> signing_key \<Rightarrow> signing_key \<Rightarrow> system_time \<Rightarrow> (public_key \<times> frame) list \<Rightarrow> router_state" where
  "met_high C a b now fs =
     met C b (verification_key C a) (stamped_as (append_signature C (own_root C now b) a 1) now 2) 2 fs"

text \<open>The four frames and the path.\<close>

definition bootstrap_to :: "crypto \<Rightarrow> signing_key \<Rightarrow> signing_key \<Rightarrow> u64 \<Rightarrow> frame" where
  "bootstrap_to C a b path_id = SnekBootstrap \<lparr>sb_root = root_of (verification_key C b),
     sb_destination_key = verification_key C a, sb_source = [1], sb_path_id = path_id\<rparr>"

definition bootstrap_ack_to :: "crypto \<Rightarrow> signing_key \<Rightarrow> signing_key \<Rightarrow> u64 \<Rightarrow> frame" where
  "bootstrap_ack_to C a b path_id = SnekBootstrapACK \<lparr>ba_destination_coordinates = [1],
     ba_destination_key = verification_key C a, ba_source_coordinates = [],
     ba_source_key = verification_key C b, ba_root = root_of (verification_key C b), ba_path_id = path_id\<rparr>"

definition setup_to :: "crypto \<Rightarrow> signing_key \<Rightarrow> signing_key \<Rightarrow> u64 \<Rightarrow> frame" where
  "setup_to C a b path_id = SnekSetup \<lparr>su_root = root_of (verification_key C b), su_destination = [],
     su_destination_key = verification_key C b, su_source_key = verification_key C a, su_path_id = path_id\<rparr>"

definition setup_ack_to :: "crypto \<Rightarrow> signing_key \<Rightarrow> signing_key \<Rightarrow> u64 \<Rightarrow> frame" where
  "setup_ack_to C a b path_id = SnekSetupACK \<lparr>sa_root = root_of (verification_key C b),
     sa_destination_key = verification_key C a, sa_path_id = path_id\<rparr>"

definition low_path :: "crypto \<Rightarrow> signing_key \<Rightarrow> signing_key \<Rightarrow> system_time \<Rightarrow> u64 \<Rightarrow> snek_path" where
  "low_path C a b now path_id =
     \<lparr>path_index = Snek_Path_Index (verification_key C a) path_id, path_origin = verification_key C b,
      path_target = verification_key C b, path_source = 0, path_destination = 1, path_last_seen = now,
      path_root = root_of (verification_key C b), path_active = True\<rparr>"

definition high_path :: "crypto \<Rightarrow> signing_key \<Rightarrow> signing_key \<Rightarrow> system_time \<Rightarrow> u64 \<Rightarrow> snek_path" where
  "high_path C a b now path_id =
     \<lparr>path_index = Snek_Path_Index (verification_key C a) path_id, path_origin = verification_key C a,
      path_target = verification_key C b, path_source = 1, path_destination = 0, path_last_seen = now,
      path_root = root_of (verification_key C b), path_active = True\<rparr>"

lemma append_stamped [simp]: "append_signature C (stamped_as a now n) k p = stamped_as (append_signature C a k p) now n"
  by (simp add: append_signature_def Let_def signed_bytes_def)

lemma is_clean_stamped [simp]: "is_clean C (stamped_as a now n) k = is_clean C a k"
  by (cases "ann_signatures a") (simp_all add: is_clean_def)

lemma first_port_is_1 [simp]: "new_port_from [] 1 = Some 1"
  by (simp add: new_port_from.simps hm_contains_key_def)

lemmas run_nodes = run_test run_snek_test connect_def greet_peer_def accept_peer_def get_new_port_def
  snek_tick_def maintain_snek_def maintain_ascending_def maintain_descending_def maintain_inactive_def
  greeting_def met_def own_root_def met_low_def met_high_def low_path_def high_path_def
  bootstrap_to_def bootstrap_ack_to_def setup_to_def setup_ack_to_def

lemma greeting_fresh: "greeting C now 1 (snd (start (new_router C a))) = own_root C now a"
  by (simp add: run_nodes)

lemma low_meets:
  "test_keys C a b \<Longrightarrow> E = test_env C now random \<Longrightarrow>
    snd (connect E 0 0 (Some (Inr (decoded_as now (TreeAnnouncement (own_root C now b)))))
      (snd (start (new_router C a)))) =
    met_low C a b now [(verification_key C b,
      TreeAnnouncement (stamped_as (append_signature C (own_root C now b) a 1) now 1))]"
  by (simp add: test_keysD [of C a b] run_nodes)

lemma high_meets:
  "test_keys C a b \<Longrightarrow> E = test_env C now random \<Longrightarrow>
    snd (connect E 0 0 (Some (Inr (decoded_as now (TreeAnnouncement (own_root C now a)))))
      (snd (start (new_router C b)))) =
    met C b (verification_key C a) (stamped_as (own_root C now a) now 1) 1
      [(verification_key C a, TreeAnnouncement (stamped_as (own_root C now b) now 1))]"
  by (simp add: test_keysD [of C a b] run_nodes)

lemma high_learns:
  "test_keys C a b \<Longrightarrow> E = test_env C now random \<Longrightarrow>
    snd (take_task E (Some (Inr (decoded_as now (TreeAnnouncement (stamped_as (append_signature C (own_root C now b) a 1) now 1)))))
      (Peer_Loop (verification_key C a)) (met C b (verification_key C a) (stamped_as (own_root C now a) now 1) 1 fs)) =
    met_high C a b now fs"
  by (simp add: test_keysD [of C a b] run_nodes)

lemma low_bootstraps:
  "test_keys C a b \<Longrightarrow> E = test_env C now path_id \<Longrightarrow>
    snd (snek_tick E (met_low C a b now fs)) =
    met_low C a b now (fs @ [(verification_key C b, bootstrap_to C a b path_id)])"
  by (simp add: test_keysD [of C a b] run_nodes)

lemma high_acknowledges:
  "test_keys C a b \<Longrightarrow> E = test_env C now random \<Longrightarrow>
    snd (take_task E (Some (Inr (decoded_as now (bootstrap_to C a b path_id)))) (Peer_Loop (verification_key C a)) (met_high C a b now fs)) =
    met_high C a b now (fs @ [(verification_key C a, bootstrap_ack_to C a b path_id)])"
  by (simp add: test_keysD [of C a b] run_nodes)

lemma low_sets_up:
  "test_keys C a b \<Longrightarrow> E = test_env C now random \<Longrightarrow>
    snd (take_task E (Some (Inr (decoded_as now (bootstrap_ack_to C a b path_id)))) (Peer_Loop (verification_key C b)) (met_low C a b now fs)) =
    (met_low C a b now (fs @ [(verification_key C b, setup_to C a b path_id)]))
      \<lparr>paths := [(Snek_Path_Index (verification_key C a) path_id, (low_path C a b now path_id)\<lparr>path_active := False\<rparr>)],
       candidate := Some (low_path C a b now path_id)\<rparr>"
  by (simp add: test_keysD [of C a b] run_nodes)

lemma high_links:
  "test_keys C a b \<Longrightarrow> E = test_env C now random \<Longrightarrow>
    snd (take_task E (Some (Inr (decoded_as now (setup_to C a b path_id)))) (Peer_Loop (verification_key C a)) (met_high C a b now fs)) =
    (met_high C a b now (fs @ [(verification_key C a, setup_ack_to C a b path_id)]))
      \<lparr>paths := [(Snek_Path_Index (verification_key C a) path_id, high_path C a b now path_id)],
       descending_path := Some (high_path C a b now path_id)\<rparr>"
  by (simp add: test_keysD [of C a b] run_nodes)

lemma low_links:
  "test_keys C a b \<Longrightarrow> E = test_env C now random \<Longrightarrow>
    snd (take_task E (Some (Inr (decoded_as now (setup_ack_to C a b path_id)))) (Peer_Loop (verification_key C b))
      ((met_low C a b now fs)
        \<lparr>paths := [(Snek_Path_Index (verification_key C a) path_id, (low_path C a b now path_id)\<lparr>path_active := False\<rparr>)],
         candidate := Some (low_path C a b now path_id)\<rparr>)) =
    (met_low C a b now fs)
      \<lparr>paths := [(Snek_Path_Index (verification_key C a) path_id, low_path C a b now path_id)],
       ascending_path := Some (low_path C a b now path_id)\<rparr>"
  by (simp add: test_keysD [of C a b] run_nodes)

section \<open>They link\<close>

lemma met_simps [simp]:
  "sent (met C a q ann n fs) = fs" "spawned (met C a q ann n fs) = [Peer_Loop q]"
  "sent (met_low C a b now fs) = fs" "spawned (met_low C a b now fs) = [Peer_Loop (verification_key C b)]"
  "sent (met_high C a b now fs) = fs" "spawned (met_high C a b now fs) = [Peer_Loop (verification_key C a)]"
  "parent (met_low C a b now fs) = verification_key C b"
  by (simp_all add: met_def met_low_def met_high_def)

lemma two_nodes_run:
  assumes keys: "test_keys C a b" and a: "sk (verification_key C a) = a" and b: "sk (verification_key C b) = b"
  shows "\<exists>gs fs fs'. (verification_key C b, setup_to C a b path_id) \<in> set fs \<and> pair_at C sk gs
    (verification_key C a) ((met_low C a b now fs)
      \<lparr>paths := [(Snek_Path_Index (verification_key C a) path_id, low_path C a b now path_id)],
       ascending_path := Some (low_path C a b now path_id)\<rparr>)
    (verification_key C b) ((met_high C a b now fs')
      \<lparr>paths := [(Snek_Path_Index (verification_key C a) path_id, high_path C a b now path_id)],
       descending_path := Some (high_path C a b now path_id)\<rparr>)"
proof -
  let ?E = "test_env C now path_id" and ?a = "verification_key C a" and ?b = "verification_key C b"
  let ?new = "\<lambda>k. snd (start (new_router C k))" and ?at = "pair_at C sk"
  let ?ga = "own_root C now a" and ?gb = "own_root C now b"
  let ?gs = "[(?b, ?gb), (?a, ?ga)]" and ?index = "Snek_Path_Index ?a path_id"
  let ?fb = "[(?a, TreeAnnouncement (stamped_as ?gb now 1))]"
  let ?fa = "[(?b, TreeAnnouncement (stamped_as (append_signature C ?gb a 1) now 1))]"
  let ?fa2 = "?fa @ [(?b, bootstrap_to C a b path_id)]" and ?fb2 = "?fb @ [(?a, bootstrap_ack_to C a b path_id)]"
  let ?fa3 = "?fa2 @ [(?b, setup_to C a b path_id)]" and ?fb3 = "?fb2 @ [(?a, setup_ack_to C a b path_id)]"
  note at = keys refl and swap = pair_swap
  have signed: "signing_public_key (last (ann_signatures (own_root C now k))) = verification_key C k" for k
    by (simp add: own_root_def)
  have "?at [] ?a (new_router C a) ?b (new_router C b)"
    using pair_new [of ?a ?b C sk] test_keysD(3) [OF keys] a b by simp
  then have "?at [] ?b (?new b) ?a (?new a)"
    by (intro pair_starts swap [OF pair_starts])
  then have "?at ?gs ?b (?new b) ?a (?new a)"
    using pair_greets [of C sk "[]" ?a "?new a" ?b "?new b" 1 now]
      pair_greets [of C sk "[(?a, ?ga)]" ?b "?new b" ?a "?new a" 1 now]
    by (simp add: greeting_fresh swap)
  then have "?at ?gs ?b (met C b ?a (stamped_as ?ga now 1) 1 ?fb) ?a (?new a)"
    by (rule pair_connects [OF _ _ _ _ high_meets [OF at]]) (simp_all add: signed)
  then have "?at ?gs ?a (met_low C a b now ?fa) ?b (met C b ?a (stamped_as ?ga now 1) 1 ?fb)"
    by (rule pair_connects [OF swap _ _ _ low_meets [OF at]]) (simp_all add: signed)
  then have "?at ?gs ?b (met_high C a b now ?fb) ?a (met_low C a b now ?fa)"
    by (rule pair_hears [OF swap _ _ _ high_learns [OF at]]) simp_all
  then have "?at ?gs ?a (met_low C a b now ?fa2) ?b (met_high C a b now ?fb)"
    by (rule pair_ticks [OF swap _ low_bootstraps [OF at]]) simp_all
  then have "?at ?gs ?b (met_high C a b now ?fb2) ?a (met_low C a b now ?fa2)"
    by (rule pair_hears [OF swap _ _ _ high_acknowledges [OF at]]) simp_all
  then have "?at ?gs ?a ((met_low C a b now ?fa3)\<lparr>paths := [(?index, (low_path C a b now path_id)\<lparr>path_active := False\<rparr>)],
      candidate := Some (low_path C a b now path_id)\<rparr>) ?b (met_high C a b now ?fb2)"
    by (rule pair_hears [OF swap _ _ _ low_sets_up [OF at]]) simp_all
  then have "?at ?gs ?b ((met_high C a b now ?fb3)\<lparr>paths := [(?index, high_path C a b now path_id)],
      descending_path := Some (high_path C a b now path_id)\<rparr>)
      ?a ((met_low C a b now ?fa3)\<lparr>paths := [(?index, (low_path C a b now path_id)\<lparr>path_active := False\<rparr>)],
      candidate := Some (low_path C a b now path_id)\<rparr>)"
    by (rule pair_hears [OF swap _ _ _ high_links [OF at]]) simp_all
  then have "?at ?gs ?a ((met_low C a b now ?fa3)\<lparr>paths := [(?index, low_path C a b now path_id)],
      ascending_path := Some (low_path C a b now path_id)\<rparr>)
      ?b ((met_high C a b now ?fb3)\<lparr>paths := [(?index, high_path C a b now path_id)],
      descending_path := Some (high_path C a b now path_id)\<rparr>)"
    by (rule pair_hears [OF swap _ _ _ low_links [OF at]]) simp_all
  then show ?thesis
    by (intro exI [of _ ?gs] exI [of _ ?fa3] exI [of _ ?fb3]) simp
qed

text \<open>
  C2: two nodes link up. In a network of two routers there is a run, without any frame but those
  the two send each other, after which the one with the lower key has the other as its parent in
  the tree, its ascending path of the snake leads to that other, and the descending path of the
  other is the same path and leads back, both active and routed over their first ports.
\<close>

theorem two_nodes_link:
  assumes "crypto_correct C" and "keyed C {low, high} sk" and "low < high"
  shows "\<exists>N asc desc path_id. net_reachable C {low, high} sk N \<and>
    parent (nodes N low) = high \<and> parent (nodes N high) = high \<and>
    ascending_path (nodes N low) = Some asc \<and> descending_path (nodes N high) = Some desc \<and>
    path_index asc = Snek_Path_Index low path_id \<and> path_index desc = path_index asc \<and>
    path_active asc \<and> path_active desc \<and>
    path_origin asc = high \<and> path_origin desc = low \<and>
    get_peer_on_port (nodes N low) (path_destination asc) = Some high \<and>
    get_peer_on_port (nodes N high) (path_source desc) = Some low"
proof -
  have keys: "test_keys C (sk low) (sk high)" "verification_key C (sk low) = low" "verification_key C (sk high) = high"
    using assms by (auto simp: test_keys_def keyed_def)
  let ?asc = "low_path C (sk low) (sk high) 0 0" and ?desc = "high_path C (sk low) (sk high) 0 0"
  obtain gs fs fs' where "pair_at C sk gs
    low ((met_low C (sk low) (sk high) 0 fs)\<lparr>paths := [(Snek_Path_Index low 0, ?asc)], ascending_path := Some ?asc\<rparr>)
    high ((met_high C (sk low) (sk high) 0 fs')\<lparr>paths := [(Snek_Path_Index low 0, ?desc)], descending_path := Some ?desc\<rparr>)"
    using two_nodes_run [of C "sk low" "sk high" sk 0 0] keys by auto
  then obtain N where "net_reachable C {low, high} sk N"
    and "nodes N low = (met_low C (sk low) (sk high) 0 fs)\<lparr>paths := [(Snek_Path_Index low 0, ?asc)], ascending_path := Some ?asc\<rparr>"
    and "nodes N high = (met_high C (sk low) (sk high) 0 fs')\<lparr>paths := [(Snek_Path_Index low 0, ?desc)], descending_path := Some ?desc\<rparr>"
    unfolding pair_at_def by fastforce
  then show ?thesis
    using keys assms(3)
    by (intro exI [of _ N] exI [of _ ?asc] exI [of _ ?desc] exI [of _ 0])
      (simp add: met_high_def met_low_def met_def low_path_def high_path_def get_peer_on_port_def new_router_def)
qed

section \<open>Example\<close>

theorem two_nodes_link_witness:
  "\<exists>N asc. net_reachable example_crypto {repeat_byte 3, repeat_byte 5} (\<lambda>k. k) N \<and>
    ascending_path (nodes N (repeat_byte 3)) = Some asc \<and> path_origin asc = repeat_byte 5"
proof -
  have "repeat_byte 3 < (repeat_byte 5 :: public_key)"
    by code_simp
  from two_nodes_link [OF example_crypto_correct example_keyed this] show ?thesis
    by blast
qed

end
