(* ===== verification/Path_Agreement.thy ===== *)
theory Path_Agreement
  imports Two_Nodes Snek_Invariant
begin

text \<open>
  What the paths of the snake say about the network. A node originates a frame of the snake only
  in answer to the frame before it in the handshake, and passes on only what it heard; so in a
  network of routers every link a node holds was offered or accepted by the node it leads to.
\<close>

section \<open>The handshake\<close>

text \<open>Which frame another one answers: bootstrap, its ACK, setup, its ACK.\<close>

fun answers :: "frame \<Rightarrow> frame \<Rightarrow> bool" where
  "answers (SnekBootstrapACK a) (SnekBootstrap b) \<longleftrightarrow>
     ba_destination_key a = sb_destination_key b \<and> ba_path_id a = sb_path_id b \<and> ba_root a = sb_root b"
| "answers (SnekSetup s) (SnekBootstrapACK a) \<longleftrightarrow>
     su_destination_key s = ba_source_key a \<and> su_destination s = ba_source_coordinates a \<and>
     su_path_id s = ba_path_id a \<and> su_root s = ba_root a"
| "answers (SnekSetupACK t) (SnekSetup s) \<longleftrightarrow>
     sa_destination_key t = su_source_key s \<and> sa_path_id t = su_path_id s \<and> sa_root t = su_root s"
| "answers f g \<longleftrightarrow> False"

text \<open>
  The frames node \<open>own\<close> may originate if \<open>G\<close> are the frames it may have heard. Only a bootstrap
  answers nothing; the ACK of a setup comes from the node the setup was for.
\<close>

fun originates :: "public_key \<Rightarrow> (frame \<Rightarrow> bool) \<Rightarrow> frame \<Rightarrow> bool" where
  "originates own G (SnekBootstrap b) \<longleftrightarrow> sb_destination_key b = own"
| "originates own G (SnekBootstrapACK a) \<longleftrightarrow>
     ba_source_key a = own \<and> (\<exists>b. G (SnekBootstrap b) \<and> answers (SnekBootstrapACK a) (SnekBootstrap b))"
| "originates own G (SnekSetup s) \<longleftrightarrow>
     su_source_key s = own \<and> (\<exists>a. G (SnekBootstrapACK a) \<and> answers (SnekSetup s) (SnekBootstrapACK a))"
| "originates own G (SnekSetupACK t) \<longleftrightarrow>
     (\<exists>s. G (SnekSetup s) \<and> su_destination_key s = own \<and> answers (SnekSetupACK t) (SnekSetup s))"
| "originates own G f \<longleftrightarrow> False"

lemma originates_mono [mono]: "G \<le> G' \<Longrightarrow> originates own G f \<longrightarrow> originates own G' f"
  by (cases f) auto

text \<open>The frames that are not part of the handshake.\<close>

definition unrelated :: "frame \<Rightarrow> bool" where
  "unrelated f \<longleftrightarrow> (case f of
     SnekBootstrap b \<Rightarrow> False | SnekBootstrapACK a \<Rightarrow> False | SnekSetup s \<Rightarrow> False | SnekSetupACK t \<Rightarrow> False | _ \<Rightarrow> True)"

lemma unrelated_simps [simp]:
  "unrelated (TreeRouted x1)" "unrelated (SnekRouted x2)" "unrelated (TreeAnnouncement x3)"
  "unrelated (SnekTeardown x4)" "\<not> unrelated (SnekBootstrap x5)" "\<not> unrelated (SnekBootstrapACK x6)"
  "\<not> unrelated (SnekSetup x7)" "\<not> unrelated (SnekSetupACK x8)"
  by (simp_all add: unrelated_def)

section \<open>What a node rests its links on\<close>

text \<open>The frames a node may send.\<close>

definition sendable :: "public_key \<Rightarrow> (frame \<Rightarrow> bool) \<Rightarrow> frame \<Rightarrow> bool" where
  "sendable own G f \<longleftrightarrow> unrelated f \<or> originates own G f \<or> G f"

lemma sendable_mono: "sendable own G f \<Longrightarrow> (\<And>f. G f \<Longrightarrow> G' f) \<Longrightarrow> sendable own G' f"
  using originates_mono [of G G'] by (auto simp: sendable_def)

text \<open>A candidate rests on the ACK of a bootstrap, an ascending path on that of its setup as well.\<close>

definition requested :: "public_key \<Rightarrow> (frame \<Rightarrow> bool) \<Rightarrow> snek_path \<Rightarrow> bool" where
  "requested own G e \<longleftrightarrow> (\<exists>a. G (SnekBootstrapACK a) \<and> ba_source_key a = path_origin e \<and>
     ba_root a = path_root e \<and> path_index e = Snek_Path_Index own (ba_path_id a))"

definition confirmed :: "public_key \<Rightarrow> (frame \<Rightarrow> bool) \<Rightarrow> snek_path \<Rightarrow> bool" where
  "confirmed own G e \<longleftrightarrow> requested own G e \<and>
     (\<exists>t. G (SnekSetupACK t) \<and> path_index e = Snek_Path_Index (sa_destination_key t) (sa_path_id t))"

text \<open>A descending path rests on the setup that asked for it.\<close>

definition offered :: "public_key \<Rightarrow> (frame \<Rightarrow> bool) \<Rightarrow> snek_path \<Rightarrow> bool" where
  "offered own G e \<longleftrightarrow> (\<exists>s. G (SnekSetup s) \<and> su_destination_key s = own \<and> su_source_key s = path_origin e \<and>
     su_root s = path_root e \<and> path_index e = Snek_Path_Index (path_origin e) (su_path_id s))"

definition grounded :: "public_key \<Rightarrow> (frame \<Rightarrow> bool) \<Rightarrow> router_state \<Rightarrow> router_state \<Rightarrow> bool" where
  "grounded own G r0 r \<longleftrightarrow> public_key r = own \<and> paths_indexed (paths r) \<and>
     set (sent r0) \<subseteq> set (sent r) \<and> (\<forall>(k, f) \<in> set (sent r). sendable own G f) \<and>
     pred_option (confirmed own G) (ascending_path r) \<and> pred_option (requested own G) (candidate r) \<and>
     pred_option (offered own G) (descending_path r)"

lemma grounded_new: "verification_key C key = own \<Longrightarrow> grounded own G (new_router C key) (new_router C key)"
  by (simp add: grounded_def new_router_def)

lemma grounded_now: "grounded own G r0 r \<Longrightarrow> grounded own G r r"
  by (simp add: grounded_def)

lemma links_mono:
  assumes "\<And>f. G f \<Longrightarrow> G' f"
  shows "requested own G e \<Longrightarrow> requested own G' e" and "confirmed own G e \<Longrightarrow> confirmed own G' e"
    and "offered own G e \<Longrightarrow> offered own G' e"
  using assms unfolding requested_def confirmed_def offered_def by blast+

lemma grounded_mono:
  assumes "grounded own G r0 r" and "\<And>f. G f \<Longrightarrow> G' f"
  shows "grounded own G' r0 r"
proof -
  have "\<forall>(k, f) \<in> set (sent r). sendable own G' f"
    using assms(1) sendable_mono [OF _ assms(2)] by (auto simp: grounded_def)
  moreover have "pred_option (confirmed own G') (ascending_path r)" "pred_option (requested own G') (candidate r)"
    "pred_option (offered own G') (descending_path r)"
    using assms(1) unfolding grounded_def
    by (auto elim!: option.pred_mono_strong intro!: links_mono [OF assms(2)])
  ultimately show ?thesis
    using assms(1) by (simp add: grounded_def)
qed

text \<open>The invariant of the whole router, for every frame that may have been heard.\<close>

interpretation grounded_tree: tree_frames "grounded own G r0" "sendable own G" C for own G r0 C
  by unfold_locales (auto simp: grounded_def sendable_def)

lemma grounded_bootstrap_now: "preserves (grounded own G r0) (bootstrap_now E)"
  unfolding bootstrap_now_def Let_def
  by (intro preserve grounded_tree.preserves_ok_logged) (simp add: sendable_def grounded_def)

lemma grounded_handle_bootstrap:
  "G (SnekBootstrap b) \<Longrightarrow> preserves (grounded own G r0) (handle_bootstrap E b)"
  unfolding handle_bootstrap_def Let_def
  by (intro preserve grounded_tree.preserves_ok_logged) (auto simp: sendable_def grounded_def)

lemma grounded_teardown_path: "preserves (grounded own G r0) (teardown_path from key path_id)"
  unfolding teardown_path_def Let_def
  by (intro preserve preserves_modify) (auto simp: grounded_def)

lemma bootstrap_ack_update_root: "bootstrap_ack_update now r ack = Some True \<Longrightarrow> ba_root ack = current_root r"
  by (simp add: bootstrap_ack_update_def split: if_splits)

lemma grounded_handle_bootstrap_ack:
  "G (SnekBootstrapACK a) \<Longrightarrow> preserves (grounded own G r0) (handle_bootstrap_ack E a)"
  unfolding handle_bootstrap_ack_def Let_def
  by (intro preserve preserves_modify grounded_tree.preserves_ok_logged)
    (auto simp: grounded_def sendable_def requested_def bootstrap_ack_update_root)

lemma grounded_handle_setup:
  "G (SnekSetup s) \<Longrightarrow> preserves (grounded own G r0) (handle_setup E from s next_hop)"
  unfolding handle_setup_def handle_setup_at_destination_def handle_setup_in_between_def Let_def
  by (intro preserve preserves_modify grounded_tree.preserves_ok_logged)
    (auto simp: grounded_def sendable_def offered_def)

lemma grounded_activate_entry:
  "G (SnekSetupACK t) \<Longrightarrow> path_index entry = key \<Longrightarrow>
    preserves (grounded own G r0) (activate_entry E from t key entry)"
  unfolding activate_entry_def Let_def
  by (intro preserve preserves_modify grounded_tree.preserves_ok_logged)
    (cases key; auto simp: grounded_def sendable_def confirmed_def)+

lemma grounded_handle_setup_ack:
  "G (SnekSetupACK t) \<Longrightarrow> preserves (grounded own G r0) (handle_setup_ack E from t)"
  unfolding handle_setup_ack_def
  by (intro preserve grounded_activate_entry) (auto simp: grounded_def intro: paths_indexed_entry)

interpretation grounded_router: frame_contract "grounded own G r0" "sendable own G" C "\<lambda>q f. unrelated f \<or> G f"
  for own G r0 C
  by unfold_locales
    (auto simp: grounded_def sendable_def intro: grounded_tree.preserves_handle_tree_announcement
      grounded_tree.preserves_parent_selection grounded_tree.preserves_maintain_tree
      grounded_tree.preserves_set_reparent_timer grounded_tree.preserves_first_announcement
      grounded_teardown_path grounded_bootstrap_now grounded_handle_bootstrap grounded_handle_bootstrap_ack
      grounded_handle_setup grounded_handle_setup_ack)

section \<open>Handshakes in a network\<close>

definition issued :: "public_key set \<Rightarrow> net \<Rightarrow> public_key \<Rightarrow> frame \<Rightarrow> bool" where
  "issued K N q f \<longleftrightarrow> q \<in> K \<and> (\<exists>k. (k, f) \<in> set (sent (nodes N q)))"

text \<open>A frame is genuine if a node of the network sent it that may originate it.\<close>

inductive genuine :: "public_key set \<Rightarrow> net \<Rightarrow> frame \<Rightarrow> bool" for K N where
  genuine_issued: "issued K N q f \<Longrightarrow> originates q (genuine K N) f \<Longrightarrow> genuine K N f"

inductive_cases genuineE: "genuine K N f"

lemma genuine_grows:
  assumes "\<And>q f. issued K N q f \<Longrightarrow> issued K N' q f"
  shows "genuine K N f \<Longrightarrow> genuine K N' f"
proof (induction rule: genuine.induct)
  case (genuine_issued q f)
  have "(\<lambda>f. genuine K N f \<and> genuine K N' f) \<le> genuine K N'"
    by auto
  then show ?case
    using genuine_issued.IH originates_mono assms [OF genuine_issued.hyps] by (blast intro: genuine.genuine_issued)
qed

definition net_grounded :: "public_key set \<Rightarrow> net \<Rightarrow> bool" where
  "net_grounded K N \<longleftrightarrow> (\<forall>k \<in> K. grounded k (genuine K N) (nodes N k) (nodes N k))"

lemma issued_genuine:
  assumes "net_grounded K N" and "issued K N q f"
  shows "unrelated f \<or> genuine K N f"
proof -
  have "sendable q (genuine K N) f"
    using assms by (auto simp: net_grounded_def grounded_def issued_def)
  then show ?thesis
    using assms(2) by (auto simp: sendable_def intro: genuine_issued)
qed

lemma hears_genuine:
  assumes "net_grounded K N" and "hears K N k q f"
  shows "unrelated f \<or> genuine K N f"
proof -
  consider g now where "q \<in> K" "said N q k g" "f = decoded_as now g" | "is_traffic f"
    using assms(2) by (auto simp: hears_def)
  then show ?thesis
  proof cases
    case (1 g now)
    then have "unrelated g \<or> genuine K N g"
      using issued_genuine [OF assms(1)] by (auto simp: said_def issued_def)
    with 1(3) show ?thesis by (cases g) auto
  next
    case 2
    then show ?thesis by (cases f) auto
  qed
qed

lemma net_grounded_grows:
  assumes "net_grounded K N" and "\<And>k. k \<in> K \<Longrightarrow> grounded k (genuine K N) (nodes N k) (nodes N' k)"
  shows "net_grounded K N'"
proof -
  have "issued K N' q f" if "issued K N q f" for q f
    using that assms(2) [of q] by (auto simp: issued_def grounded_def)
  then have "genuine K N f \<Longrightarrow> genuine K N' f" for f
    by (rule genuine_grows)
  then show ?thesis
    unfolding net_grounded_def using grounded_mono [OF grounded_now [OF assms(2)]] by blast
qed

lemma net_step_grounded:
  assumes "net_step C K N N'" and grounded: "net_grounded K N"
  shows "net_grounded K N'"
  using assms(1)
proof cases
  case (greets k p now)
  then show ?thesis
    using grounded by (intro net_grounded_grows [OF grounded]) (simp add: net_grounded_def)
next
  case (acts k r)
  have "heard_step C (\<lambda>q f. unrelated f \<or> genuine K N f) (nodes N k) r"
    using acts(3) by (rule heard_step_mono) (rule hears_genuine [OF grounded])
  moreover have "grounded k (genuine K N) (nodes N k) (nodes N k)"
    using grounded acts(2) by (simp add: net_grounded_def)
  ultimately have "grounded k (genuine K N) (nodes N k) r"
    by (rule grounded_router.step_keeps)
  then show ?thesis
    using grounded unfolding acts(1) by (intro net_grounded_grows [OF grounded]) (simp add: net_grounded_def)
qed

lemma net_reachable_grounded: "net_reachable C K sk N \<Longrightarrow> keyed C K sk \<Longrightarrow> net_grounded K N"
proof (induction rule: net_reachable.induct)
  case net_start
  then show ?case
    by (auto simp: net_grounded_def keyed_def intro: grounded_new)
qed (blast intro: net_step_grounded)

text \<open>The frames before a genuine one in the handshake.\<close>

lemma genuine_bootstrap: "genuine K N (SnekBootstrap b) \<Longrightarrow> issued K N (sb_destination_key b) (SnekBootstrap b)"
  by (erule genuineE) simp

lemma genuine_ack:
  assumes "genuine K N (SnekBootstrapACK a)"
  shows "issued K N (ba_source_key a) (SnekBootstrapACK a)"
    and "\<exists>b. issued K N (ba_destination_key a) (SnekBootstrap b) \<and> answers (SnekBootstrapACK a) (SnekBootstrap b)"
proof -
  from assms show "issued K N (ba_source_key a) (SnekBootstrapACK a)"
    by (rule genuineE) simp
  from assms obtain b where "genuine K N (SnekBootstrap b)" "answers (SnekBootstrapACK a) (SnekBootstrap b)"
    by (rule genuineE) auto
  then show "\<exists>b. issued K N (ba_destination_key a) (SnekBootstrap b) \<and> answers (SnekBootstrapACK a) (SnekBootstrap b)"
    using genuine_bootstrap [of K N b] by (intro exI [of _ b]) simp
qed

lemma genuine_setup:
  assumes "genuine K N (SnekSetup s)"
  shows "issued K N (su_source_key s) (SnekSetup s)"
    and "\<exists>a. genuine K N (SnekBootstrapACK a) \<and> answers (SnekSetup s) (SnekBootstrapACK a)"
  using assms by (auto elim!: genuineE [of K N "SnekSetup s"])

lemma genuine_setup_ack:
  assumes "genuine K N (SnekSetupACK t)"
  shows "\<exists>s. genuine K N (SnekSetup s) \<and> issued K N (su_destination_key s) (SnekSetupACK t) \<and>
    answers (SnekSetupACK t) (SnekSetup s)"
  using assms by (auto elim!: genuineE [of K N "SnekSetupACK t"])

text \<open>The links of the nodes, in terms of these frames.\<close>

lemma descending_genuine:
  assumes "net_grounded K N" and "k \<in> K" and "descending_path (nodes N k) = Some d"
  shows "\<exists>s. issued K N (path_origin d) (SnekSetup s) \<and> su_source_key s = path_origin d \<and>
    su_destination_key s = k \<and> su_root s = path_root d \<and>
    path_index d = Snek_Path_Index (path_origin d) (su_path_id s)"
proof -
  have "offered k (genuine K N) d"
    using assms by (auto simp: net_grounded_def grounded_def)
  then show ?thesis
    unfolding offered_def using genuine_setup(1) by metis
qed

lemma ascending_genuine:
  assumes "net_grounded K N" and "k \<in> K" and "ascending_path (nodes N k) = Some a"
  shows "\<exists>b s t. issued K N (path_origin a) (SnekBootstrapACK b) \<and> ba_source_key b = path_origin a \<and>
    ba_root b = path_root a \<and> path_index a = Snek_Path_Index k (ba_path_id b) \<and>
    issued K N k (SnekSetup s) \<and> su_source_key s = k \<and> su_path_id s = ba_path_id b \<and>
    issued K N (su_destination_key s) (SnekSetupACK t) \<and> answers (SnekSetupACK t) (SnekSetup s)"
proof -
  have "grounded k (genuine K N) (nodes N k) (nodes N k)"
    using assms(1,2) by (simp add: net_grounded_def)
  then have "confirmed k (genuine K N) a"
    using assms(3) by (simp add: grounded_def)
  then obtain b t where b: "genuine K N (SnekBootstrapACK b)" "ba_source_key b = path_origin a"
      "ba_root b = path_root a" "path_index a = Snek_Path_Index k (ba_path_id b)"
    and t: "genuine K N (SnekSetupACK t)" "path_index a = Snek_Path_Index (sa_destination_key t) (sa_path_id t)"
    unfolding confirmed_def requested_def by blast
  obtain s where s: "genuine K N (SnekSetup s)" "issued K N (su_destination_key s) (SnekSetupACK t)"
      "answers (SnekSetupACK t) (SnekSetup s)"
    using genuine_setup_ack [OF t(1)] by blast
  then have "su_source_key s = k" "su_path_id s = ba_path_id b"
    using b(4) t(2) by auto
  moreover from this have "issued K N k (SnekSetup s)"
    using genuine_setup(1) [OF s(1)] by simp
  moreover have "issued K N (path_origin a) (SnekBootstrapACK b)"
    using genuine_ack(1) [OF b(1)] unfolding b(2) .
  ultimately show ?thesis
    using b(2-4) s(2,3) by blast
qed

section \<open>What links and frames say about the network\<close>

text \<open>
  C5: links are agreed. In a network of routers the descending path of a node is one its origin
  asked this node for by a setup with its path id and root. The origin of an ascending path sent
  an ACK with its path id and root to a bootstrap, this node sent a setup with that path id, and
  the node that setup was for sent the ACK of it.
\<close>

theorem links_agreed:
  assumes "net_reachable C K sk N" and "keyed C K sk" and "k \<in> K"
  shows "(\<forall>d. descending_path (nodes N k) = Some d \<longrightarrow>
      (\<exists>s. issued K N (path_origin d) (SnekSetup s) \<and> su_source_key s = path_origin d \<and>
        su_destination_key s = k \<and> su_root s = path_root d \<and>
        path_index d = Snek_Path_Index (path_origin d) (su_path_id s))) \<and>
    (\<forall>a. ascending_path (nodes N k) = Some a \<longrightarrow>
      (\<exists>b s t. issued K N (path_origin a) (SnekBootstrapACK b) \<and> ba_source_key b = path_origin a \<and>
        ba_root b = path_root a \<and> path_index a = Snek_Path_Index k (ba_path_id b) \<and>
        issued K N k (SnekSetup s) \<and> su_source_key s = k \<and> su_path_id s = ba_path_id b \<and>
        issued K N (su_destination_key s) (SnekSetupACK t) \<and> answers (SnekSetupACK t) (SnekSetup s)))"
  using net_reachable_grounded [OF assms(1,2)] assms(3)
  by (intro conjI allI impI descending_genuine ascending_genuine)

text \<open>
  C6: no frame of the handshake is out of order. Of the frames a node of the network may hear, a
  bootstrap was sent by the node it is to lead back to, the ACK of a bootstrap and a setup by the
  node they name as their source, and the ACK of a setup by the node that setup was for. Each of
  the last three answers the frame before it in the handshake, with the same path id and root,
  which was sent by the node the answer is for.
\<close>

theorem handshake_in_order:
  assumes "net_reachable C K sk N" and "keyed C K sk" and "hears K N k q f"
  shows "case f of
      SnekBootstrap b \<Rightarrow> issued K N (sb_destination_key b) f
    | SnekBootstrapACK a \<Rightarrow> issued K N (ba_source_key a) f \<and>
        (\<exists>b. issued K N (ba_destination_key a) (SnekBootstrap b) \<and> answers f (SnekBootstrap b))
    | SnekSetup s \<Rightarrow> issued K N (su_source_key s) f \<and>
        (\<exists>a. issued K N (su_destination_key s) (SnekBootstrapACK a) \<and> answers f (SnekBootstrapACK a))
    | SnekSetupACK t \<Rightarrow>
        (\<exists>s. issued K N (su_destination_key s) f \<and> issued K N (sa_destination_key t) (SnekSetup s) \<and>
          answers f (SnekSetup s))
    | _ \<Rightarrow> True"
proof -
  have f: "unrelated f \<or> genuine K N f"
    using net_reachable_grounded [OF assms(1,2)] assms(3) by (rule hears_genuine)
  show ?thesis
  proof (cases f)
    case (SnekBootstrap b)
    then show ?thesis using f genuine_bootstrap by simp
  next
    case (SnekBootstrapACK a)
    then show ?thesis using f genuine_ack [of K N a] by simp
  next
    case (SnekSetup s)
    then have s: "genuine K N (SnekSetup s)" using f by simp
    then obtain a where "genuine K N (SnekBootstrapACK a)" "answers (SnekSetup s) (SnekBootstrapACK a)"
      using genuine_setup(2) by blast
    then show ?thesis
      using SnekSetup genuine_setup(1) [OF s] genuine_ack(1) [of K N a] by auto
  next
    case (SnekSetupACK t)
    then obtain s where s: "genuine K N (SnekSetup s)" "issued K N (su_destination_key s) (SnekSetupACK t)"
        "answers (SnekSetupACK t) (SnekSetup s)"
      using f genuine_setup_ack [of K N t] by auto
    then show ?thesis
      using SnekSetupACK genuine_setup(1) [OF s(1)] by auto
  qed simp_all
qed

section \<open>Examples\<close>

text \<open>Two nodes that have linked.\<close>

abbreviation example_pair :: "public_key set" where
  "example_pair \<equiv> {repeat_byte 3, repeat_byte 5}"

lemma example_linked:
  "\<exists>N asc. net_reachable example_crypto example_pair (\<lambda>k. k) N \<and>
    ascending_path (nodes N (repeat_byte 3)) = Some asc \<and> path_origin asc = repeat_byte 5 \<and>
    hears example_pair N (repeat_byte 5) (repeat_byte 3) (setup_to example_crypto (repeat_byte 3) (repeat_byte 5) 8)"
proof -
  have "repeat_byte 3 < (repeat_byte 5 :: public_key)"
    by code_simp
  then have "test_keys example_crypto (repeat_byte 3) (repeat_byte 5)"
    by (simp add: test_keys_def)
  then obtain gs fs fs' where fs: "(repeat_byte 5, setup_to example_crypto (repeat_byte 3) (repeat_byte 5) 8) \<in> set fs"
    and at: "pair_at example_crypto (\<lambda>k. k) gs
      (repeat_byte 3) ((met_low example_crypto (repeat_byte 3) (repeat_byte 5) 7 fs)
        \<lparr>paths := [(Snek_Path_Index (repeat_byte 3) 8, low_path example_crypto (repeat_byte 3) (repeat_byte 5) 7 8)],
         ascending_path := Some (low_path example_crypto (repeat_byte 3) (repeat_byte 5) 7 8)\<rparr>)
      (repeat_byte 5) fs'"
    using two_nodes_run [of example_crypto "repeat_byte 3" "repeat_byte 5" "\<lambda>k. k" 8 7] by auto
  then obtain N where N: "net_reachable example_crypto example_pair (\<lambda>k. k) N"
    and low: "nodes N (repeat_byte 3) = (met_low example_crypto (repeat_byte 3) (repeat_byte 5) 7 fs)
        \<lparr>paths := [(Snek_Path_Index (repeat_byte 3) 8, low_path example_crypto (repeat_byte 3) (repeat_byte 5) 7 8)],
         ascending_path := Some (low_path example_crypto (repeat_byte 3) (repeat_byte 5) 7 8)\<rparr>"
    unfolding pair_at_def by fastforce
  have said: "said N (repeat_byte 3) (repeat_byte 5) (setup_to example_crypto (repeat_byte 3) (repeat_byte 5) 8)"
    using fs by (simp add: said_def low)
  then have "hears example_pair N (repeat_byte 5) (repeat_byte 3) (setup_to example_crypto (repeat_byte 3) (repeat_byte 5) 8)"
    unfolding hears_def
    by (intro disjI1 conjI exI [of _ "setup_to example_crypto (repeat_byte 3) (repeat_byte 5) 8"]) (simp_all add: setup_to_def)
  then show ?thesis
    using N low by (intro exI [of _ N]) (simp add: low_path_def)
qed

theorem links_agreed_witness:
  "\<exists>N b. net_reachable example_crypto example_pair (\<lambda>k. k) N \<and>
    issued example_pair N (repeat_byte 5) (SnekBootstrapACK b)"
proof -
  obtain N asc where N: "net_reachable example_crypto example_pair (\<lambda>k. k) N"
      "ascending_path (nodes N (repeat_byte 3)) = Some asc" "path_origin asc = repeat_byte 5"
    using example_linked by blast
  show ?thesis
    using links_agreed [OF N(1) example_keyed, of "repeat_byte 3"] N by force
qed

theorem handshake_in_order_witness:
  "\<exists>N a. net_reachable example_crypto example_pair (\<lambda>k. k) N \<and>
    issued example_pair N (repeat_byte 5) (SnekBootstrapACK a) \<and>
    answers (setup_to example_crypto (repeat_byte 3) (repeat_byte 5) 8) (SnekBootstrapACK a)"
proof -
  obtain N where N: "net_reachable example_crypto example_pair (\<lambda>k. k) N"
      "hears example_pair N (repeat_byte 5) (repeat_byte 3) (setup_to example_crypto (repeat_byte 3) (repeat_byte 5) 8)"
    using example_linked by blast
  show ?thesis
    using handshake_in_order [OF N(1) example_keyed N(2)] N(1) by (auto simp: setup_to_def simp del: answers.simps)
qed

end
