(* ===== verification/Wire_Language.thy ===== *)
theory Wire_Language
  imports Wire_Frame
begin

text \<open>
  The bytes that \<open>decode\<close> of \<open>src/wire_frame.rs\<close> accepts. Every field of the codec has one
  encoding only, so a decoded frame determines its bytes, but for those the decoder skips: the
  two bytes after the frame type, the length of a frame without payload and the number of source
  coordinates of a tree packet.
\<close>

section \<open>Fields have one encoding\<close>

locale canonical_codec = field_codec +
  assumes put_get: "get bs = Some (x, rest) \<Longrightarrow> bs = put x @ rest"
begin

lemma put_get_many: "get_many get n bs = Some (xs, rest) \<Longrightarrow> length xs = n \<and> bs = concat (map put xs) @ rest"
  by (induction n arbitrary: bs xs) (auto simp: bind_eq_Some_conv dest!: put_get)

end

lemma put_be_Suc: "put_be (Suc n) w = put_be n (drop_bit 8 w) @ [ucast w]"
proof -
  have "[0..<Suc n] = 0 # map Suc [0..<n]"
    by (simp add: map_Suc_upt upt_conv_Cons del: upt_Suc)
  then have "rev [0..<Suc n] = map Suc (rev [0..<n]) @ [0]"
    by (simp add: rev_map del: upt_Suc)
  then show ?thesis
    by (simp add: put_be_def drop_bit_drop_bit add.commute del: upt_Suc)
qed

lemma be_value_snoc: "be_value (bs @ [b]) = or (push_bit 8 (be_value bs)) (ucast b)"
  by (simp add: be_value_def)

lemma be_value_bound: "8 * length bs \<le> LENGTH('a) \<Longrightarrow> take_bit (8 * length bs) (be_value bs) = (be_value bs :: 'a::len word)"
proof (induction bs rule: rev_induct)
  case (snoc b bs)
  then have "take_bit (8 * length bs) (be_value bs) = (be_value bs :: 'a word)"
    by simp
  then have low: "bit (be_value bs :: 'a word) i \<Longrightarrow> i < 8 * length bs" for i
    by (metis bit_take_bit_iff)
  show ?case
    by (rule bit_word_eqI) (auto simp: be_value_snoc bit_simps dest: low bit_imp_le_length)
qed (simp add: be_value_def)

lemma put_be_value: "8 * length bs \<le> LENGTH('a) \<Longrightarrow> put_be (length bs) (be_value bs :: 'a::len word) = bs"
proof (induction bs rule: rev_induct)
  case (snoc b bs)
  then have IH: "put_be (length bs) (be_value bs :: 'a word) = bs"
    by simp
  have bound: "take_bit (8 * length bs) (be_value bs) = (be_value bs :: 'a word)"
    using snoc.prems by (intro be_value_bound) simp
  then have low: "bit (be_value bs :: 'a word) i \<Longrightarrow> i < 8 * length bs" for i
    by (metis bit_take_bit_iff)
  have "drop_bit 8 (be_value (bs @ [b])) = (be_value bs :: 'a word)"
    by (rule bit_word_eqI) (use snoc.prems in \<open>auto simp: be_value_snoc bit_simps dest: low bit_imp_le_length\<close>)
  moreover have "ucast (be_value (bs @ [b]) :: 'a word) = b"
    by (rule bit_word_eqI) (use snoc.prems in \<open>auto simp: be_value_snoc bit_simps\<close>)
  ultimately show ?case
    using IH by (simp add: put_be_Suc)
qed (simp add: put_be_def)

lemma put_get_be: "8 * n \<le> LENGTH('a) \<Longrightarrow> get_be n bs = Some (w :: 'a::len word, rest) \<Longrightarrow> bs = put_be n w @ rest"
  using put_be_value [where 'a = 'a, of "take n bs"] by (auto simp: get_be_def split: if_splits)

interpretation u8_canonical: canonical_codec put_u8 get_u8 1
  by unfold_locales (auto simp: put_u8_def get_u8_def split: list.splits)

interpretation u16_canonical: canonical_codec put_u16 get_u16 2
  by unfold_locales (simp add: put_u16_def get_u16_def put_get_be)

interpretation u32_canonical: canonical_codec put_u32 get_u32 4
  by unfold_locales (simp add: put_u32_def get_u32_def put_get_be)

interpretation u64_canonical: canonical_codec put_u64 get_u64 8
  by unfold_locales (simp add: put_u64_def get_u64_def put_get_be)

interpretation array_canonical: canonical_codec "put_array :: 'n::len byte_array \<Rightarrow> u8 list" get_array "LENGTH('n)"
  by unfold_locales
    (auto simp: get_array_def put_array_def bind_eq_Some_conv concat_map_put_u8 bytes_of_byte_array_of dest!: u8_canonical.put_get_many)

interpretation root_canonical: canonical_codec put_root get_root 40
  by unfold_locales
    (auto simp: get_root_def put_root_def decode_key_def bind_eq_Some_conv
      dest!: array_canonical.put_get u64_canonical.put_get)

interpretation signature_canonical: canonical_codec put_signature get_signature 104
  by unfold_locales
    (auto simp: get_signature_def put_signature_def decode_key_def decode_signature_def bind_eq_Some_conv
      dest!: array_canonical.put_get u64_canonical.put_get)

lemma u16_below: "unat (n :: u16) < 65536"
  using unsigned_less [of n] by simp

lemma coordinates_put_get: "get_coordinates bs = Some (c, rest) \<Longrightarrow> bs = put_coordinates c @ rest \<and> length c < 65536"
  by (auto simp: get_coordinates_def put_coordinates_def bind_eq_Some_conv
      dest!: u16_canonical.put_get u64_canonical.put_get_many intro!: u16_below)

section \<open>What the decoder accepts\<close>

text \<open>
  The body of a frame with \<open>n\<close> in the place of the number of source coordinates of a tree packet;
  the lengths its lists can have; and the length fields that go with it: any for a frame without
  payload.
\<close>

fun body_with_count :: "u16 \<Rightarrow> frame \<Rightarrow> u8 list" where
  "body_with_count n (TreeRouted p) =
     put_coordinates (tp_destination_coordinates p) @ put_u16 n @ concat (map put_u64 (tp_source_coordinates p)) @
     tp_payload p"
| "body_with_count n f = encode_body f"

fun lists_fit :: "frame \<Rightarrow> bool" where
  "lists_fit (TreeRouted p) \<longleftrightarrow> length (tp_destination_coordinates p) < 65536 \<and>
     length (tp_source_coordinates p) = length (tp_destination_coordinates p)"
| "lists_fit (SnekRouted p) \<longleftrightarrow> True"
| "lists_fit (TreeAnnouncement a) \<longleftrightarrow> length (ann_signatures a) < 65536"
| "lists_fit (SnekBootstrap p) \<longleftrightarrow> length (sb_source p) < 65536"
| "lists_fit (SnekBootstrapACK p) \<longleftrightarrow>
     length (ba_destination_coordinates p) < 65536 \<and> length (ba_source_coordinates p) < 65536"
| "lists_fit (SnekSetup p) \<longleftrightarrow> length (su_destination p) < 65536"
| "lists_fit (SnekSetupACK p) \<longleftrightarrow> True"
| "lists_fit (SnekTeardown p) \<longleftrightarrow> True"

fun length_fits :: "u16 \<Rightarrow> u16 \<Rightarrow> frame \<Rightarrow> bool" where
  "length_fits len n (TreeRouted p) \<longleftrightarrow>
     unat len = 14 + 8 * length (tp_destination_coordinates p) + 8 * unat n + length (tp_payload p)"
| "length_fits len n (SnekRouted p) \<longleftrightarrow> unat len = 74 + length (sp_payload p)"
| "length_fits len n f \<longleftrightarrow> True"

lemma checked_sub_unat: "checked_sub a b = Some c \<longleftrightarrow> unat b \<le> unat a \<and> unat c = unat a - unat b"
  by (auto simp: checked_sub_Some_iff word_le_nat_alt unat_sub intro: word_unat_eq_iff [THEN iffD2])

lemma checked_mul_unat:
  "checked_mul a b = Some (c :: 'a::len word) \<longleftrightarrow> unat a * unat b < 2 ^ LENGTH('a) \<and> unat c = unat a * unat b"
  by (auto simp: checked_mul_Some_iff unat_mult_lem intro: word_unat_eq_iff [THEN iffD2])

lemmas accepted_fields = u16_canonical.put_get u64_canonical.put_get root_canonical.put_get array_canonical.put_get
  coordinates_put_get u64_canonical.put_get_many u8_canonical.put_get_many signature_canonical.put_get_many

lemma checked_sub_value: "unat b \<le> unat a \<Longrightarrow> checked_sub a b = Some (of_nat (unat a - unat b) :: 'a::len word)"
  using checked_sub_of_nat [of "unat a" "unat b", where 'a = 'a] by simp

lemma decode_tree_packet_iff:
  "decode_tree_packet len src = Some (f, rest) \<longleftrightarrow>
     (\<exists>p n. f = TreeRouted p \<and> lists_fit f \<and> length_fits len n f \<and> src = body_with_count n f @ rest)"
proof
  assume "decode_tree_packet len src = Some (f, rest)"
  then show "\<exists>p n. f = TreeRouted p \<and> lists_fit f \<and> length_fits len n f \<and> src = body_with_count n f @ rest"
    by (auto simp: decode_tree_packet_def bind_eq_Some_conv checked_sub_unat checked_mul_unat concat_map_put_u8
        put_coordinates_def u16_below dest!: accepted_fields)
      (rule exI, rule conjI [rotated], rule refl, linarith)
next
  assume "\<exists>p n. f = TreeRouted p \<and> lists_fit f \<and> length_fits len n f \<and> src = body_with_count n f @ rest"
  then obtain p n where p: "f = TreeRouted p" and fit: "lists_fit f" "length_fits len n f"
    and src: "src = body_with_count n f @ rest"
    by blast
  let ?d = "length (tp_destination_coordinates p)" and ?k = "length (tp_payload p)"
  have len: "unat len = 14 + 8 * ?d + 8 * unat n + ?k" "length (tp_source_coordinates p) = ?d"
    using fit p by simp_all
  have small: "unat (of_nat m :: u16) = m" if "m \<le> unat len" for m
    using that u16_below [of len] by (intro unat_of_nat_small) simp
  have l1: "checked_sub len 10 = Some (of_nat (unat len - 10))"
    using checked_sub_value [of 10 len] len by simp
  have l2: "checked_sub (of_nat (unat len - 10) :: u16) 4 = Some (of_nat (unat len - 14))"
    using checked_sub_value [of 4 "of_nat (unat len - 10) :: u16"] small [of "unat len - 10"] len by simp
  have d8: "checked_mul (of_nat ?d :: u16) 8 = Some (of_nat (8 * ?d))"
    using small [of ?d] small [of "8 * ?d"] len u16_below [of len] by (simp add: checked_mul_unat)
  have l3: "checked_sub (of_nat (unat len - 14) :: u16) (of_nat (8 * ?d)) = Some (of_nat (unat len - 14 - 8 * ?d))"
    using checked_sub_value [of "of_nat (8 * ?d)" "of_nat (unat len - 14) :: u16"]
      small [of "8 * ?d"] small [of "unat len - 14"] len by simp
  have s8: "checked_mul n 8 = Some (of_nat (8 * unat n))"
    using small [of "8 * unat n"] len u16_below [of len] by (simp add: checked_mul_unat)
  have l4: "checked_sub (of_nat (unat len - 14 - 8 * ?d) :: u16) (of_nat (8 * unat n)) = Some (of_nat ?k)"
    using checked_sub_value [of "of_nat (8 * unat n)" "of_nat (unat len - 14 - 8 * ?d) :: u16"]
      small [of "8 * unat n"] small [of "unat len - 14 - 8 * ?d"] len by simp
  have many: "get_many get_u64 ?d (concat (map put_u64 (tp_destination_coordinates p)) @ r) = Some (tp_destination_coordinates p, r)"
    "get_many get_u64 ?d (concat (map put_u64 (tp_source_coordinates p)) @ r) = Some (tp_source_coordinates p, r)" for r
    using u64_field.get_many_all [of "tp_source_coordinates p" r] u64_field.get_many_all [of "tp_destination_coordinates p" r]
      len(2) by simp_all
  have body: "src = put_u16 (of_nat ?d) @ concat (map put_u64 (tp_destination_coordinates p)) @ put_u16 n @
      concat (map put_u64 (tp_source_coordinates p)) @ tp_payload p @ rest"
    using src p by (simp add: put_coordinates_def)
  have k: "unat (of_nat ?d :: u16) = ?d" "unat (of_nat ?k :: u16) = ?k"
    using len by (simp_all add: small)
  show "decode_tree_packet len src = Some (f, rest)"
    unfolding decode_tree_packet_def body
    by (simp only: field_laws bind.simps case_prod_conv k many l1 l2 d8 l3 s8 l4) (simp add: get_many_u8 p)
qed

lemma decode_snek_packet_iff:
  "decode_snek_packet len src = Some (f, rest) \<longleftrightarrow>
     (\<exists>p. f = SnekRouted p \<and> length_fits len 0 f \<and> src = encode_body f @ rest)"
proof
  assume "decode_snek_packet len src = Some (f, rest)"
  then show "\<exists>p. f = SnekRouted p \<and> length_fits len 0 f \<and> src = encode_body f @ rest"
    by (auto simp: decode_snek_packet_def decode_key_def bind_eq_Some_conv checked_sub_unat concat_map_put_u8
        dest!: accepted_fields)
next
  assume "\<exists>p. f = SnekRouted p \<and> length_fits len 0 f \<and> src = encode_body f @ rest"
  then obtain p where p: "f = SnekRouted p" and len: "unat len = 74 + length (sp_payload p)" and src: "src = encode_body f @ rest"
    by auto
  have "len = of_nat (74 + length (sp_payload p))"
    by (simp flip: len)
  then show "decode_snek_packet len src = Some (f, rest)"
    using decode_snek_packet_encode [of "sp_payload p" "sp_destination_key p" "sp_source_key p" rest] u16_below [of len] len
    by (simp add: p src)
qed

lemma decode_lists_iff:
  "decode_tree_announcement now src = Some (f, rest) \<longleftrightarrow>
     (\<exists>a. f = TreeAnnouncement a \<and> decoded_as now f = f \<and> lists_fit f \<and> src = encode_body f @ rest)"
  "decode_bootstrap src = Some (f, rest) \<longleftrightarrow>
     (\<exists>p. f = SnekBootstrap p \<and> lists_fit f \<and> src = encode_body f @ rest)"
  "decode_bootstrap_ack src = Some (f, rest) \<longleftrightarrow>
     (\<exists>p. f = SnekBootstrapACK p \<and> lists_fit f \<and> src = encode_body f @ rest)"
  "decode_setup src = Some (f, rest) \<longleftrightarrow>
     (\<exists>p. f = SnekSetup p \<and> lists_fit f \<and> src = encode_body f @ rest)"
  "decode_setup_ack src = Some (f, rest) \<longleftrightarrow>
     (\<exists>p. f = SnekSetupACK p \<and> src = encode_body f @ rest)"
  "decode_teardown src = Some (f, rest) \<longleftrightarrow>
     (\<exists>p. f = SnekTeardown p \<and> src = encode_body f @ rest)"
proof -
  note defs = bind_eq_Some_conv decode_key_def field_laws array_field.get_put u16_below
  show "decode_tree_announcement now src = Some (f, rest) \<longleftrightarrow>
      (\<exists>a. f = TreeAnnouncement a \<and> decoded_as now f = f \<and> lists_fit f \<and> src = encode_body f @ rest)"
  proof
    assume "\<exists>a. f = TreeAnnouncement a \<and> decoded_as now f = f \<and> lists_fit f \<and> src = encode_body f @ rest"
    then obtain a where "f = TreeAnnouncement a" "decoded_as now f = f" "lists_fit f" "src = encode_body f @ rest"
      by blast
    then show "decode_tree_announcement now src = Some (f, rest)"
      by (cases a) (simp add: decode_tree_announcement_def defs unat_of_nat_small)
  qed (auto simp: decode_tree_announcement_def defs dest!: accepted_fields)
  show "decode_bootstrap src = Some (f, rest) \<longleftrightarrow> (\<exists>p. f = SnekBootstrap p \<and> lists_fit f \<and> src = encode_body f @ rest)"
    by (auto simp: decode_bootstrap_def defs dest!: accepted_fields)
  show "decode_bootstrap_ack src = Some (f, rest) \<longleftrightarrow> (\<exists>p. f = SnekBootstrapACK p \<and> lists_fit f \<and> src = encode_body f @ rest)"
    by (auto simp: decode_bootstrap_ack_def defs dest!: accepted_fields)
  show "decode_setup src = Some (f, rest) \<longleftrightarrow> (\<exists>p. f = SnekSetup p \<and> lists_fit f \<and> src = encode_body f @ rest)"
    by (auto simp: decode_setup_def defs dest!: accepted_fields)
  show "decode_setup_ack src = Some (f, rest) \<longleftrightarrow> (\<exists>p. f = SnekSetupACK p \<and> src = encode_body f @ rest)"
    by (auto simp: decode_setup_ack_def defs dest!: accepted_fields)
  show "decode_teardown src = Some (f, rest) \<longleftrightarrow> (\<exists>p. f = SnekTeardown p \<and> src = encode_body f @ rest)"
    by (auto simp: decode_teardown_def defs dest!: accepted_fields)
qed

lemma decode_body_iff:
  "decode_body now ty len src = Some (Inr (Some f), rest) \<longleftrightarrow>
     ty = frame_type f \<and> decoded_as now f = f \<and> lists_fit f \<and>
     (\<exists>n. length_fits len n f \<and> src = body_with_count n f @ rest)"
  by (cases f) (auto simp: decode_body_def Let_def decode_tree_packet_iff decode_snek_packet_iff decode_lists_iff)

lemma six_bytes: "6 \<le> length bs \<Longrightarrow> \<exists>v ty e1 e2 l1 l2 body. bs = v # ty # e1 # e2 # l1 # l2 # body"
  by (auto simp: numeral_eq_Suc Suc_le_length_iff)

lemma header_split:
  assumes "10 \<le> length src" and "take 4 src = FRAME_MAGIC_BYTES"
  shows "\<exists>v ty e1 e2 len body. src = FRAME_MAGIC_BYTES @ [v, ty, e1, e2] @ put_u16 len @ body"
proof -
  have "6 \<le> length (drop 4 src)"
    using assms(1) by simp
  then obtain v ty e1 e2 l1 l2 body where "drop 4 src = [v, ty, e1, e2] @ [l1, l2] @ body"
    using six_bytes by fastforce
  moreover have "[l1, l2] = put_u16 (be_value [l1, l2])"
    using put_be_value [of "[l1, l2]", where 'a = 16] by (simp add: put_u16_def numeral_2_eq_2)
  ultimately show ?thesis
    using assms(2) append_take_drop_id [of 4 src] by metis
qed

lemma decode_parts:
  "decode now (FRAME_MAGIC_BYTES @ [v, ty, e1, e2] @ put_u16 len @ body) =
     (if v \<noteq> 0 then Some (Inl (DecodingError ''Not frame version 0''), [ty, e1, e2] @ put_u16 len @ body)
      else do { body_len \<leftarrow> checked_sub len 10;
        if length body < unat body_len then Some (Inl (DecodingError ''Did not receive enough bytes''), body)
        else decode_body now ty len body })"
proof -
  have ne: "FRAME_MAGIC_BYTES @ x \<noteq> []" for x
    by (simp add: FRAME_MAGIC_BYTES_def)
  have read: "get_u32 (FRAME_MAGIC_BYTES @ x) = Some (0x70696e65, x)" for x
    by (simp add: FRAME_MAGIC_BYTES_put field_laws)
  have bytes: "get_u8 (b # x) = Some (b, x)" for b x
    by (simp add: get_u8_def)
  show ?thesis
    by (simp add: decode_def ne read bytes field_laws field_lengths del: append_is_Nil_conv)
qed

text \<open>
  C9: what the decoder accepts. A buffer decodes to a frame exactly when it starts with the magic
  bytes, version zero, the type of the frame, any two bytes, a length of at least ten, at most as
  many bytes as there are, that fits the frame, and the encoding of the body, and the frame has
  lists of 16-bit lengths and, if an announcement, the time of its receipt. The length only has
  to fit when there is a payload. In a tree packet the count of source coordinates is free: the
  payload is what the length leaves after it, but there are as many source as destination
  coordinates.
\<close>

theorem decode_accepts:
  "decode now src = Some (Inr (Some f), rest) \<longleftrightarrow>
     decoded_as now f = f \<and> lists_fit f \<and>
     (\<exists>e1 e2 len n. 10 \<le> unat len \<and> length_fits len n f \<and>
        unat len - 10 \<le> length (body_with_count n f @ rest) \<and>
        src = FRAME_MAGIC_BYTES @ [0, frame_type f, e1, e2] @ put_u16 len @ body_with_count n f @ rest)"
proof
  assume f: "decode now src = Some (Inr (Some f), rest)"
  then have "10 \<le> length src" "take 4 src = FRAME_MAGIC_BYTES"
    by (auto simp: decode_def split: if_splits)
  then obtain v ty e1 e2 len body where src: "src = FRAME_MAGIC_BYTES @ [v, ty, e1, e2] @ put_u16 len @ body"
    using header_split by blast
  have "v = 0" "10 \<le> unat len" "unat len - 10 \<le> length body"
      and "decode_body now ty len body = Some (Inr (Some f), rest)"
    using f unfolding src decode_parts by (auto simp: bind_eq_Some_conv checked_sub_unat split: if_splits)
  then show "decoded_as now f = f \<and> lists_fit f \<and> (\<exists>e1 e2 len n. 10 \<le> unat len \<and> length_fits len n f \<and>
      unat len - 10 \<le> length (body_with_count n f @ rest) \<and>
      src = FRAME_MAGIC_BYTES @ [0, frame_type f, e1, e2] @ put_u16 len @ body_with_count n f @ rest)"
    unfolding src decode_body_iff by blast
next
  assume "decoded_as now f = f \<and> lists_fit f \<and> (\<exists>e1 e2 len n. 10 \<le> unat len \<and> length_fits len n f \<and>
      unat len - 10 \<le> length (body_with_count n f @ rest) \<and>
      src = FRAME_MAGIC_BYTES @ [0, frame_type f, e1, e2] @ put_u16 len @ body_with_count n f @ rest)"
  then obtain e1 e2 len n where f: "decoded_as now f = f" "lists_fit f" "length_fits len n f"
    and len: "10 \<le> unat len" "unat len - 10 \<le> length (body_with_count n f @ rest)"
    and src: "src = FRAME_MAGIC_BYTES @ [0, frame_type f, e1, e2] @ put_u16 len @ body_with_count n f @ rest"
    by blast
  obtain bl where "checked_sub len 10 = Some bl"
    using checked_sub_value [of 10 len] len(1) by simp
  moreover from this have "unat bl = unat len - 10"
    by (simp add: checked_sub_unat)
  moreover have "decode_body now (frame_type f) len (body_with_count n f @ rest) = Some (Inr (Some f), rest)"
    using f by (auto simp: decode_body_iff)
  ultimately show "decode now src = Some (Inr (Some f), rest)"
    using len(2) unfolding src decode_parts by simp
qed

end
