(* ===== verification/Connection.thy ===== *)
theory Connection
  imports Wire_Frame
begin

text \<open>
  \<open>src/connection.rs\<close> and the error conversions of \<open>src/error.rs\<close>: the two kinds of connection,
  over TCP with the codec or over channels in tests. The framed streams and the channels are
  libraries: what they answer is an argument. The lemmas are about what such a stream does with
  the codec, which is to decode as long as it gives frames: that comes to an end, and gives back
  the frames that were written.
\<close>

section \<open>Errors\<close>

text \<open>Every error of a socket and every closed channel closes the connection.\<close>

definition router_error_of_io :: "'io_error \<Rightarrow> router_error" where
  "router_error_of_io e = ConnectionClosed"

definition router_error_of_send :: "'send_error \<Rightarrow> router_error" where
  "router_error_of_send e = ConnectionClosed"

section \<open>Connections\<close>

text \<open>The type variables are the streams, sinks and channels the connections hold.\<close>

datatype ('stream, 'receiver) download_connection = Download_Tcp 'stream | Download_Test 'receiver

datatype ('sink, 'sender) upload_connection = Upload_Tcp 'sink | Upload_Test 'sender

text \<open>\<open>next\<close>: a channel that is closed ends the stream, and its frames are never errors.\<close>

definition download_next ::
  "('stream \<Rightarrow> (router_error + frame) option \<times> 'stream) \<Rightarrow> ('receiver \<Rightarrow> frame option \<times> 'receiver) \<Rightarrow>
   ('stream, 'receiver) download_connection \<Rightarrow>
   (router_error + frame) option \<times> ('stream, 'receiver) download_connection" where
  "download_next next recv c =
     (case c of
        Download_Tcp stream \<Rightarrow> (let (item, stream) = next stream in (item, Download_Tcp stream))
      | Download_Test stream \<Rightarrow>
          (case recv stream of
             (None, stream) \<Rightarrow> (None, Download_Test stream)
           | (Some frame, stream) \<Rightarrow> (Some (Inr frame), Download_Test stream)))"

definition upload_send_frame ::
  "('sink \<Rightarrow> frame \<Rightarrow> (router_error + unit) \<times> 'sink) \<Rightarrow> ('sender \<Rightarrow> frame \<Rightarrow> ('send_error + unit) \<times> 'sender) \<Rightarrow>
   frame \<Rightarrow> ('sink, 'sender) upload_connection \<Rightarrow> (router_error + unit) \<times> ('sink, 'sender) upload_connection" where
  "upload_send_frame sink_send send frame c =
     (case c of
        Upload_Tcp sink \<Rightarrow> (let (res, sink) = sink_send sink frame in (res, Upload_Tcp sink))
      | Upload_Test sink \<Rightarrow>
          (case send sink frame of
             (Inr u, sink) \<Rightarrow> (Inr u, Upload_Test sink)
           | (Inl e, sink) \<Rightarrow> (Inl (router_error_of_send e), Upload_Test sink)))"

section \<open>The decoder only takes bytes off the front\<close>

definition takes_front :: "'a reader \<Rightarrow> bool" where
  "takes_front get \<longleftrightarrow> (\<forall>bs x rest. get bs = Some (x, rest) \<longrightarrow> length rest \<le> length bs)"

named_theorems front

lemma takes_frontI: "(\<And>bs x rest. get bs = Some (x, rest) \<Longrightarrow> length rest \<le> length bs) \<Longrightarrow> takes_front get"
  by (simp add: takes_front_def)

lemma takes_frontD: "takes_front get \<Longrightarrow> get bs = Some (x, rest) \<Longrightarrow> length rest \<le> length bs"
  by (simp add: takes_front_def)

lemma front_Some [front]: "takes_front (\<lambda>bs. Some (f, bs))"
  by (simp add: takes_front_def)

lemma front_bind [front]:
  "takes_front get \<Longrightarrow> (\<And>x. takes_front (f x)) \<Longrightarrow>
    takes_front (\<lambda>bs. Option.bind (get bs) (\<lambda>(x, rest). f x rest))"
  unfolding takes_front_def by (fastforce simp: bind_eq_Some_conv dest: le_trans)

lemma front_checked [front]:
  "(\<And>x. takes_front (f x)) \<Longrightarrow> takes_front (\<lambda>bs. Option.bind v (\<lambda>x. f x bs))"
  by (cases v) (simp_all add: takes_front_def)

lemma front_fields [front]:
  "takes_front get_u8" "takes_front get_u16" "takes_front get_u32" "takes_front get_u64"
  "takes_front (get_array :: 'n::len byte_array reader)"
  by (auto intro!: takes_frontI dest!: u8_field.get_SomeD u16_field.get_SomeD u32_field.get_SomeD
      u64_field.get_SomeD array_field.get_SomeD)

lemma front_many [front]: "takes_front get \<Longrightarrow> takes_front (get_many get n)"
proof (induction n)
  case 0
  then show ?case
    by (simp add: takes_front_def)
next
  case (Suc n)
  have "get_many get (Suc n) = (\<lambda>bs. Option.bind (get bs) (\<lambda>(x, bs1).
      Option.bind (get_many get n bs1) (\<lambda>(xs, bs2). Some (x # xs, bs2))))"
    by (simp add: fun_eq_iff)
  with Suc show ?case
    by (simp only:) (intro front; simp)
qed

lemma front_composed [front]:
  "takes_front decode_key" "takes_front decode_signature" "takes_front get_root"
  "takes_front get_signature" "takes_front get_coordinates"
  unfolding decode_key_def [abs_def] decode_signature_def [abs_def] get_root_def [abs_def]
    get_signature_def [abs_def] get_coordinates_def [abs_def]
  by (intro front)+

lemma front_frames [front]:
  "takes_front (decode_tree_announcement now)" "takes_front (decode_tree_packet len)"
  "takes_front decode_bootstrap" "takes_front decode_bootstrap_ack" "takes_front decode_setup"
  "takes_front decode_setup_ack" "takes_front decode_teardown" "takes_front (decode_snek_packet len)"
  unfolding decode_tree_announcement_def [abs_def] decode_tree_packet_def [abs_def] decode_bootstrap_def [abs_def]
    decode_bootstrap_ack_def [abs_def] decode_setup_def [abs_def] decode_setup_ack_def [abs_def]
    decode_teardown_def [abs_def] decode_snek_packet_def [abs_def]
  by (intro front)+

lemma decode_body_front:
  "decode_body now ty len src = Some (Inr (Some f), rest) \<Longrightarrow> length rest \<le> length src"
  by (auto simp: decode_body_def Let_def split: if_splits dest!: front_frames [THEN takes_frontD])

lemma decode_consumes:
  assumes "decode now src = Some (Inr (Some f), rest)"
  shows "length rest + 10 \<le> length src"
proof -
  have "10 \<le> length src" "take 4 src = FRAME_MAGIC_BYTES"
    using assms by (auto simp: decode_def split: if_splits)
  then have "\<exists>x. get_u32 src = Some (x, drop 4 src)" "\<exists>x. get_u8 (drop 4 src) = Some (x, drop 5 src)"
    "\<exists>x. get_u8 (drop 5 src) = Some (x, drop 6 src)" "\<exists>x. get_u8 (drop 6 src) = Some (x, drop 7 src)"
    "\<exists>x. get_u8 (drop 7 src) = Some (x, drop 8 src)" "\<exists>x. get_u16 (drop 8 src) = Some (x, drop 10 src)"
    using u32_field.get_enough [of src] u8_field.get_enough [of "drop 4 src"] u8_field.get_enough [of "drop 5 src"]
      u8_field.get_enough [of "drop 6 src"] u8_field.get_enough [of "drop 7 src"] u16_field.get_enough [of "drop 8 src"]
    by simp_all
  then obtain magic version ty a1 a2 len where
    "get_u32 src = Some (magic, drop 4 src)" "get_u8 (drop 4 src) = Some (version, drop 5 src)"
    "get_u8 (drop 5 src) = Some (ty, drop 6 src)" "get_u8 (drop 6 src) = Some (a1, drop 7 src)"
    "get_u8 (drop 7 src) = Some (a2, drop 8 src)" "get_u16 (drop 8 src) = Some (len, drop 10 src)"
    by blast
  then have "decode_body now ty len (drop 10 src) = Some (Inr (Some f), rest)"
    using assms \<open>10 \<le> length src\<close> \<open>take 4 src = FRAME_MAGIC_BYTES\<close>
    by (cases "checked_sub len 10") (simp_all add: decode_def split: if_splits)
  then show ?thesis
    using decode_body_front [of now ty len "drop 10 src" f rest] \<open>10 \<le> length src\<close> by simp
qed

section \<open>Decoding a stream\<close>

text \<open>
  The frames the decoder gives one after another, and its first answer that is not a frame: a
  request for more bytes, an error, or a panic. \<open>FramedRead\<close> calls the decoder in this way on the
  bytes it has.
\<close>

function decode_all :: "system_time \<Rightarrow> u8 list \<Rightarrow> frame list \<times> decode_result" where
  "decode_all now src =
     (case decode now src of
        Some (Inr (Some f), rest) \<Rightarrow> (let (fs, ans) = decode_all now rest in (f # fs, ans))
      | ans \<Rightarrow> ([], ans))"
  by pat_completeness auto
termination
  by (relation "measure (\<lambda>(now, src). length src)") (auto dest: decode_consumes)

declare decode_all.simps [simp del]

lemma decode_all_frame:
  "decode now src = Some (Inr (Some f), rest) \<Longrightarrow>
    decode_all now src = (f # fst (decode_all now rest), snd (decode_all now rest))"
  by (simp add: decode_all.simps [of now src] split: prod.split)

lemma decode_all_end:
  "\<nexists>f rest. decode now src = Some (Inr (Some f), rest) \<Longrightarrow> decode_all now src = ([], decode now src)"
  by (subst decode_all.simps) (auto split: option.split sum.split prod.split)

text \<open>
  C39: decoding a stream ends. Every frame the decoder gives takes at least the ten bytes of a
  header off the buffer, so what remains is shorter and any buffer yields at most a tenth of its
  length in frames, whatever bytes a peer sends; then the decoder asks for more bytes, fails or
  panics.
\<close>

theorem stream_decoding_ends:
  "(decode now src = Some (Inr (Some f), rest) \<longrightarrow> length rest + 10 \<le> length src) \<and>
   10 * length (fst (decode_all now src)) \<le> length src \<and>
   (case snd (decode_all now src) of
      None \<Rightarrow> True
    | Some (Inl e, left) \<Rightarrow> True
    | Some (Inr asked, left) \<Rightarrow> asked = None \<and> length left < 10)"
proof -
  have short: "length left < 10 \<and> asked = None"
    if "decode now src = Some (Inr asked, left)" "\<nexists>f. asked = Some f" for src asked left
  proof -
    have "\<not> 10 \<le> length src"
      using that
      by (cases asked) (auto simp: decode_def decode_body_def Let_def bind_eq_Some_conv split: if_splits)
    then show ?thesis
      using that by (auto simp: decode_def split: if_splits)
  qed
  have "10 * length (fst (decode_all now src)) \<le> length src \<and>
   (case snd (decode_all now src) of
      None \<Rightarrow> True
    | Some (Inl e, left) \<Rightarrow> True
    | Some (Inr asked, left) \<Rightarrow> asked = None \<and> length left < 10)"
  proof (induction "length src" arbitrary: src rule: less_induct)
    case less
    show ?case
    proof (cases "\<exists>f rest. decode now src = Some (Inr (Some f), rest)")
      case True
      then obtain f rest where f: "decode now src = Some (Inr (Some f), rest)" by blast
      then show ?thesis
        using decode_consumes [OF f] less [of rest] by (simp add: decode_all_frame)
    next
      case False
      then show ?thesis
        using short [of src] by (auto simp: decode_all_end split: option.split sum.split)
    qed
  qed
  then show ?thesis
    using decode_consumes by blast
qed

text \<open>
  C11: a stream gives back the frames written to it. The bytes of transportable frames, written
  one after another and followed by the beginning of a header, decode to these frames in order;
  the decoder then asks for more and keeps the beginning.
\<close>

theorem stream_roundtrip:
  assumes "list_all encodable fs" and "n < 10"
  shows "decode_all now (concat (map (\<lambda>f. snd (encode f [])) fs) @ take n (snd (encode g []))) =
    (map (decoded_as now) fs, Some (Inr None, take n (snd (encode g []))))"
  using assms(1)
proof (induction fs)
  case Nil
  have "decode now (take n (encode_frame g)) = Some (Inr None, take n (encode_frame g))"
    using assms(2) by (rule decode_header_part)
  then show ?case
    by (simp add: encode_def decode_all_end)
next
  case (Cons f fs)
  then show ?case
    by (simp add: encode_def decode_all_frame [OF decode_encode_frame])
qed

theorem stream_decoding_ends_witness:
  "length [1, 2 :: u8] + 10 \<le> length (encode_frame (TreeAnnouncement example_announcement) @ [1, 2])"
proof -
  have "encodable (TreeAnnouncement example_announcement)"
    by (simp del: frame_len.simps)
  then show ?thesis
    using stream_decoding_ends [of 20 "encode_frame (TreeAnnouncement example_announcement) @ [1, 2]"
        "decoded_as 20 (TreeAnnouncement example_announcement)" "[1, 2]"]
    by (simp only: decode_encode_frame)
qed

theorem stream_roundtrip_witness:
  "decode_all 20 (encode_frame (TreeAnnouncement example_announcement) @ encode_frame (TreeAnnouncement example_announcement) @ [0x70]) =
     (replicate 2 (decoded_as 20 (TreeAnnouncement example_announcement)), Some (Inr None, [0x70]))"
  using stream_roundtrip [of "replicate 2 (TreeAnnouncement example_announcement)" 1 20 "TreeAnnouncement example_announcement"]
  by (simp add: encode_def encode_frame_def frame_header_def FRAME_MAGIC_BYTES_def numeral_2_eq_2
    del: frame_len.simps encode_body.simps decoded_as.simps)

end
