(* ===== verification/Session.thy ===== *)
theory Session
  imports Frames
begin

text \<open>
  \<open>src/session.rs\<close>: reading from and writing to a session with a node. The channels are
  tokio's; what they answer is an argument. The lemmas show that what one session writes the
  session at the other end reads, and what happens to frames that do not fit.
\<close>

section \<open>Polling\<close>

datatype 'a poll = Ready 'a | Pending

datatype error_kind = Broken_Pipe | Out_Of_Memory

datatype io_error = Io_Error error_kind string

text \<open>A \<open>ReadBuf\<close>: its capacity and the bytes filled in so far.\<close>

record read_buf =
  buf_capacity :: nat
  buf_filled :: "u8 list"

definition buf_remaining :: "read_buf \<Rightarrow> nat" where
  "buf_remaining b = buf_capacity b - length (buf_filled b)"

definition buf_put_slice :: "u8 list \<Rightarrow> read_buf \<Rightarrow> read_buf" where
  "buf_put_slice bs b = b\<lparr>buf_filled := buf_filled b @ bs\<rparr>"

text \<open>The answers of \<open>poll_recv\<close> (\<open>None\<close> for a closed channel) and of \<open>try_send\<close>.\<close>

type_synonym recv_answer = "frame option poll"

datatype send_answer = Send_Ok | Send_Full | Send_Closed

section \<open>Sessions\<close>

text \<open>
  A session knows its two keys; its channels are the answers above. A \<open>SendSession\<close> has no
  download channel.
\<close>

record session =
  router_key :: public_key
  dialed_key :: public_key

definition peer_key :: "session \<Rightarrow> public_key" where
  "peer_key s = dialed_key s"

record send_session =
  send_router_key :: public_key
  send_dialed_key :: public_key

definition send_peer_key :: "send_session \<Rightarrow> public_key" where
  "send_peer_key s = send_dialed_key s"

definition poll_read :: "recv_answer \<Rightarrow> read_buf \<Rightarrow> (io_error + unit) poll \<times> read_buf" where
  "poll_read answer buf =
     (case answer of
        Ready result \<Rightarrow>
          (case result of
             None \<Rightarrow> (Ready (Inl (Io_Error Broken_Pipe ''Session download channel closed'')), buf)
           | Some frame \<Rightarrow>
               (case frame of
                  SnekRouted packet \<Rightarrow>
                    if buf_remaining buf < length (sp_payload packet)
                    then (Ready (Inl (Io_Error Out_Of_Memory ''Buffer not large enough'')), buf)
                    else (Ready (Inr ()), buf_put_slice (sp_payload packet) buf)
                | _ \<Rightarrow> (Ready (Inr ()), buf)))
      | Pending \<Rightarrow> (Pending, buf))"

definition session_frame :: "session \<Rightarrow> u8 list \<Rightarrow> frame" where
  "session_frame s buf =
     SnekRouted \<lparr>sp_destination_key = dialed_key s, sp_source_key = router_key s, sp_payload = buf\<rparr>"

text \<open>The second component is the frame the channel took.\<close>

definition poll_write ::
  "session \<Rightarrow> (frame \<Rightarrow> send_answer) \<Rightarrow> u8 list \<Rightarrow> (io_error + nat) poll \<times> frame option" where
  "poll_write s try_send buf =
     (let frame = session_frame s buf
      in case try_send frame of
           Send_Ok \<Rightarrow> (Ready (Inr (length buf)), Some frame)
         | Send_Full \<Rightarrow> (Pending, None)
         | Send_Closed \<Rightarrow> (Ready (Inl (Io_Error Broken_Pipe ''Session upload channel closed'')), None))"

definition poll_flush :: "(io_error + unit) poll" where
  "poll_flush = Ready (Inr ())"

definition poll_shutdown :: "(io_error + unit) poll" where
  "poll_shutdown = Ready (Inr ())"

text \<open>The same for a \<open>SendSession\<close>.\<close>

definition send_session_frame :: "send_session \<Rightarrow> u8 list \<Rightarrow> frame" where
  "send_session_frame s buf =
     SnekRouted \<lparr>sp_destination_key = send_dialed_key s, sp_source_key = send_router_key s, sp_payload = buf\<rparr>"

definition send_poll_write ::
  "send_session \<Rightarrow> (frame \<Rightarrow> send_answer) \<Rightarrow> u8 list \<Rightarrow> (io_error + nat) poll \<times> frame option" where
  "send_poll_write s try_send buf =
     (let frame = send_session_frame s buf
      in case try_send frame of
           Send_Ok \<Rightarrow> (Ready (Inr (length buf)), Some frame)
         | Send_Full \<Rightarrow> (Pending, None)
         | Send_Closed \<Rightarrow> (Ready (Inl (Io_Error Broken_Pipe ''Session upload channel closed'')), None))"

definition send_poll_flush :: "(io_error + unit) poll" where
  "send_poll_flush = Ready (Inr ())"

definition send_poll_shutdown :: "(io_error + unit) poll" where
  "send_poll_shutdown = Ready (Inr ())"

section \<open>What is written is read\<close>

text \<open>
  Writing and reading. When the channel takes what a session writes, the write reports all
  bytes and the frame is addressed to the dialed node in this node's name; the session at the
  other end, given that frame, reads exactly those bytes after what its buffer held, if they
  fit.
\<close>

theorem session_roundtrip:
  assumes "try_send (session_frame s bytes) = Send_Ok" and "length bytes \<le> buf_remaining b"
  shows "\<exists>packet. poll_write s try_send bytes = (Ready (Inr (length bytes)), Some (SnekRouted packet)) \<and>
    sp_destination_key packet = peer_key s \<and> sp_source_key packet = router_key s \<and>
    poll_read (Ready (Some (SnekRouted packet))) b =
      (Ready (Inr ()), b\<lparr>buf_filled := buf_filled b @ bytes\<rparr>)"
  using assms by (simp add: poll_write_def session_frame_def peer_key_def poll_read_def buf_put_slice_def)

text \<open>
  Reads that lose or end data. A packet larger than the rest of the buffer is an error and
  its bytes are gone, since the frame has already left the channel. An empty packet and any
  protocol frame make the read succeed without bytes, which for an \<open>AsyncRead\<close> means the end of
  the stream although the session is open.
\<close>

lemma session_read_pitfalls:
  "(buf_remaining b < length (sp_payload packet) \<longrightarrow>
     poll_read (Ready (Some (SnekRouted packet))) b =
       (Ready (Inl (Io_Error Out_Of_Memory ''Buffer not large enough'')), b)) \<and>
   (sp_payload packet = [] \<longrightarrow> poll_read (Ready (Some (SnekRouted packet))) b = (Ready (Inr ()), b)) \<and>
   (poll_read (Ready (Some frame)) b = (Ready (Inr ()), b) \<or>
     (\<exists>p. frame = SnekRouted p \<and> sp_payload p \<noteq> []))"
  by (cases frame) (auto simp: poll_read_def buf_put_slice_def)

theorem session_roundtrip_witness:
  "snd (poll_read (Ready (snd (poll_write \<lparr>router_key = repeat_byte 1, dialed_key = repeat_byte 2\<rparr>
      (\<lambda>f. Send_Ok) [5, 6]))) \<lparr>buf_capacity = 4, buf_filled = [9]\<rparr>) = \<lparr>buf_capacity = 4, buf_filled = [9, 5, 6]\<rparr>"
  using session_roundtrip [of "\<lambda>f. Send_Ok" "\<lparr>router_key = repeat_byte 1, dialed_key = repeat_byte 2\<rparr>" "[5, 6]"
      "\<lparr>buf_capacity = 4, buf_filled = [9]\<rparr>"]
  by (auto simp: buf_remaining_def)

end
