(* ===== verification/Client.thy ===== *)
theory Client
  imports Session
begin

text \<open>
  \<open>src/client.rs\<close>: dialling, and the loop that hands received frames to sessions. A dial, the
  acceptance of a new session and the removal of a closed one each take the table of sessions
  twice, first to look and then to write, and other tasks may run in between; so each is two steps here. The lemmas show which
  session a frame reaches, and what the gap between the two steps allows.
\<close>

section \<open>State\<close>

text \<open>The download channel of a session, numbered in the order of creation.\<close>

type_synonym channel = nat

record client_state =
  client_key :: public_key
  session_senders :: "(public_key, channel) hash_map"
  opened :: "(channel \<times> session) list"
  handed :: "(channel \<times> frame) list"
  dialing :: "public_key list"
  accepting :: "snek_packet option"
  removing :: "public_key option"

text \<open>
  \<open>opened\<close> and \<open>handed\<close> record the sessions created and the frames put into their channels;
  \<open>dialing\<close>, \<open>accepting\<close> and \<open>removing\<close> are the dials, the acceptance and the removal of a closed
  session between their two steps.
\<close>

definition new_client :: "public_key \<Rightarrow> client_state" where
  "new_client key = \<lparr>client_key = key, session_senders = [], opened = [], handed = [],
     dialing = [], accepting = None, removing = None\<rparr>"

definition open_session :: "public_key \<Rightarrow> client_state \<Rightarrow> session \<times> client_state" where
  "open_session key c =
     (let ch = length (opened c); s = \<lparr>router_key = client_key c, dialed_key = key\<rparr>
      in (s, c\<lparr>session_senders := hm_insert key ch (session_senders c), opened := opened c @ [(ch, s)]\<rparr>))"

section \<open>Dialling\<close>

definition dial_send :: "public_key \<Rightarrow> client_state \<Rightarrow> send_session" where
  "dial_send key c = \<lparr>send_router_key = client_key c, send_dialed_key = key\<rparr>"

definition dial_check :: "public_key \<Rightarrow> client_state \<Rightarrow> (router_error + unit) \<times> client_state" where
  "dial_check key c =
     (if hm_contains_key (session_senders c) key then (Inl SessionAlreadyExists, c)
      else (Inr (), c\<lparr>dialing := key # dialing c\<rparr>))"

definition dial_insert :: "public_key \<Rightarrow> client_state \<Rightarrow> session \<times> client_state" where
  "dial_insert key c = open_session key (c\<lparr>dialing := remove1 key (dialing c)\<rparr>)"

text \<open>A dial that nothing interrupts.\<close>

definition dial :: "public_key \<Rightarrow> client_state \<Rightarrow> (router_error + session) \<times> client_state" where
  "dial key c =
     (case dial_check key c of
        (Inl e, c') \<Rightarrow> (Inl e, c')
      | (Inr _, c') \<Rightarrow> (let (s, c'') = dial_insert key c' in (Inr s, c'')))"

section \<open>Receiving\<close>

text \<open>One frame of the loop; \<open>is_open\<close> says which sessions still hold their end of the channel.\<close>

definition receive_frame :: "(channel \<Rightarrow> bool) \<Rightarrow> frame \<Rightarrow> client_state \<Rightarrow> client_state" where
  "receive_frame is_open frame c =
     (case frame of
        SnekRouted packet \<Rightarrow>
          (case hm_get (session_senders c) (sp_source_key packet) of
             Some ch \<Rightarrow>
               if is_open ch then c\<lparr>handed := handed c @ [(ch, frame)]\<rparr>
               else c\<lparr>removing := Some (sp_source_key packet)\<rparr>
           | None \<Rightarrow> c\<lparr>accepting := Some packet\<rparr>)
      | _ \<Rightarrow> c)"

definition remove_closed :: "client_state \<Rightarrow> client_state" where
  "remove_closed c =
     (case removing c of
        None \<Rightarrow> c
      | Some key \<Rightarrow> c\<lparr>session_senders := hm_remove key (session_senders c), removing := None\<rparr>)"

definition accept_session :: "client_state \<Rightarrow> client_state" where
  "accept_session c =
     (case accepting c of
        None \<Rightarrow> c
      | Some packet \<Rightarrow>
          let ch = length (opened c); (s, c') = open_session (sp_source_key packet) c
          in c'\<lparr>handed := handed c' @ [(ch, SnekRouted packet)], accepting := None\<rparr>)"

text \<open>A frame that nothing interrupts.\<close>

definition receive :: "(channel \<Rightarrow> bool) \<Rightarrow> frame \<Rightarrow> client_state \<Rightarrow> client_state" where
  "receive is_open frame c = accept_session (remove_closed (receive_frame is_open frame c))"

section \<open>The client as a step relation\<close>

inductive client_step :: "client_state \<Rightarrow> client_state \<Rightarrow> bool" where
  step_dial_check: "client_step c (snd (dial_check key c))"
| step_dial_insert: "key \<in> set (dialing c) \<Longrightarrow> client_step c (snd (dial_insert key c))"
| step_receive: "accepting c = None \<Longrightarrow> removing c = None \<Longrightarrow> client_step c (receive_frame is_open frame c)"
| step_remove: "removing c \<noteq> None \<Longrightarrow> client_step c (remove_closed c)"
| step_accept: "accepting c \<noteq> None \<Longrightarrow> client_step c (accept_session c)"

inductive client_reachable :: "public_key \<Rightarrow> client_state \<Rightarrow> bool" for key where
  client_new: "client_reachable key (new_client key)"
| client_next: "client_reachable key c \<Longrightarrow> client_step c c' \<Longrightarrow> client_reachable key c'"

inductive_cases client_stepE: "client_step c c'"

section \<open>The invariant of the client\<close>

text \<open>
  Channels are numbered without gaps, every session is in this node's name, the table leads to
  sessions for its keys, and every frame in a channel comes from the node its session is for.
\<close>

definition client_inv :: "public_key \<Rightarrow> client_state \<Rightarrow> bool" where
  "client_inv key c \<longleftrightarrow> client_key c = key \<and> hm_wf (session_senders c) \<and>
     map fst (opened c) = [0..<length (opened c)] \<and>
     (\<forall>(ch, s) \<in> set (opened c). router_key s = key) \<and>
     (\<forall>k ch. hm_get (session_senders c) k = Some ch \<longrightarrow> (\<exists>s. (ch, s) \<in> set (opened c) \<and> dialed_key s = k)) \<and>
     (\<forall>(ch, f) \<in> set (handed c). \<exists>p s. f = SnekRouted p \<and> (ch, s) \<in> set (opened c) \<and> dialed_key s = sp_source_key p)"

lemma client_inv_lookup:
  "client_inv key c \<Longrightarrow> hm_get (session_senders c) k = Some ch \<Longrightarrow>
    \<exists>s. (ch, s) \<in> set (opened c) \<and> dialed_key s = k"
  by (simp add: client_inv_def)

lemma client_inv_handed:
  "client_inv key c \<Longrightarrow> (ch, f) \<in> set (handed c) \<Longrightarrow>
    \<exists>p s. f = SnekRouted p \<and> (ch, s) \<in> set (opened c) \<and> dialed_key s = sp_source_key p"
  by (auto simp: client_inv_def)

lemma client_inv_opened:
  "client_inv key c \<Longrightarrow> (ch, s) \<in> set (opened c) \<Longrightarrow> router_key s = key"
  by (auto simp: client_inv_def)

lemma client_inv_unique:
  assumes "client_inv key c" and "(ch, s) \<in> set (opened c)" and "(ch, s') \<in> set (opened c)"
  shows "s' = s"
proof -
  have "map fst (opened c) = [0..<length (opened c)]"
    using assms(1) by (simp add: client_inv_def)
  then have "distinct (map fst (opened c))"
    by (metis distinct_upt)
  then show ?thesis
    using assms(3,2) by (rule eq_key_imp_eq_value)
qed

lemma client_inv_new: "client_inv key (new_client key)"
  by (simp add: client_inv_def new_client_def)

lemma client_inv_open: "client_inv key c \<Longrightarrow> client_inv key (snd (open_session k c))"
  by (fastforce simp: client_inv_def open_session_def Let_def split: if_splits)

lemma client_inv_neutral:
  "client_inv key c \<Longrightarrow> client_inv key (c\<lparr>dialing := ks\<rparr>)"
  "client_inv key c \<Longrightarrow> client_inv key (c\<lparr>accepting := a\<rparr>)"
  "client_inv key c \<Longrightarrow> client_inv key (c\<lparr>removing := x\<rparr>)"
  "client_inv key c \<Longrightarrow> client_inv key (remove_closed c)"
  by (simp_all add: client_inv_def remove_closed_def split: option.split)

lemma client_inv_hand:
  "client_inv key c \<Longrightarrow> (ch, s) \<in> set (opened c) \<Longrightarrow> dialed_key s = sp_source_key p \<Longrightarrow>
    client_inv key (c\<lparr>handed := handed c @ [(ch, SnekRouted p)]\<rparr>)"
  by (auto simp: client_inv_def)

lemma client_inv_receive: "client_inv key c \<Longrightarrow> client_inv key (receive_frame is_open frame c)"
proof -
  assume inv: "client_inv key c"
  show ?thesis
  proof (cases "\<exists>p ch. frame = SnekRouted p \<and> hm_get (session_senders c) (sp_source_key p) = Some ch \<and> is_open ch")
    case True
    then obtain p ch where p: "frame = SnekRouted p" "hm_get (session_senders c) (sp_source_key p) = Some ch" "is_open ch"
      by blast
    moreover from p(2) obtain s where "(ch, s) \<in> set (opened c)" "dialed_key s = sp_source_key p"
      using client_inv_lookup [OF inv] by blast
    ultimately show ?thesis
      using inv client_inv_hand by (simp add: receive_frame_def)
  next
    case False
    then show ?thesis
      using inv by (auto simp: receive_frame_def client_inv_neutral split: frame.split option.split)
  qed
qed

lemma client_inv_accept: "client_inv key c \<Longrightarrow> client_inv key (accept_session c)"
proof (cases "accepting c")
  case (Some p)
  assume inv: "client_inv key c"
  let ?c = "snd (open_session (sp_source_key p) c)"
  have "client_inv key ?c"
    using inv by (rule client_inv_open)
  then have "client_inv key (?c\<lparr>handed := handed ?c @ [(length (opened c), SnekRouted p)]\<rparr>)"
    by (rule client_inv_hand [where s = "fst (open_session (sp_source_key p) c)"]) (simp_all add: open_session_def Let_def)
  then have "client_inv key (?c\<lparr>handed := handed ?c @ [(length (opened c), SnekRouted p)], accepting := None\<rparr>)"
    by (rule client_inv_neutral)
  then show ?thesis
    using Some by (simp add: accept_session_def Let_def case_prod_unfold)
qed (simp add: accept_session_def)

lemma client_inv_step: "client_step c c' \<Longrightarrow> client_inv key c \<Longrightarrow> client_inv key c'"
  by (cases rule: client_step.cases)
    (auto simp: dial_check_def dial_insert_def
      intro: client_inv_neutral client_inv_open client_inv_receive client_inv_accept)

lemma client_inv_reachable: "client_reachable key c \<Longrightarrow> client_inv key c"
  by (induction rule: client_reachable.induct) (auto intro: client_inv_new client_inv_step)

text \<open>
  C22: sessions are isolated. In every reachable state each channel belongs to one session, which
  is in this node's name, and every frame handed to it was sent by the node it is for.
\<close>

theorem sessions_isolated:
  assumes "client_reachable key c" and "(ch, frame) \<in> set (handed c)" and "(ch, s) \<in> set (opened c)"
  shows "router_key s = key \<and> (\<exists>p. frame = SnekRouted p \<and> sp_source_key p = dialed_key s) \<and>
    (\<forall>s'. (ch, s') \<in> set (opened c) \<longrightarrow> s' = s)"
proof -
  have inv: "client_inv key c"
    using assms(1) by (rule client_inv_reachable)
  then show ?thesis
    using assms(2,3) client_inv_handed client_inv_opened client_inv_unique by metis
qed

text \<open>
  Where a frame goes. A packet from a node with a live session goes to that session alone.
  From a node without one it opens a session for that node, registers it and is its first
  frame. If the session was closed, the packet is lost: it reaches no session, and only the
  next one opens a new session.
\<close>

lemma received_frame_goes:
  assumes "accepting c = None" and "removing c = None"
  shows "(hm_get (session_senders c) (sp_source_key p) = Some ch \<longrightarrow>
      receive is_open (SnekRouted p) c =
        (if is_open ch then c\<lparr>handed := handed c @ [(ch, SnekRouted p)]\<rparr>
         else c\<lparr>session_senders := hm_remove (sp_source_key p) (session_senders c)\<rparr>)) \<and>
    (hm_get (session_senders c) (sp_source_key p) = None \<longrightarrow>
      receive is_open (SnekRouted p) c =
        c\<lparr>session_senders := hm_insert (sp_source_key p) (length (opened c)) (session_senders c),
          opened := opened c @ [(length (opened c), \<lparr>router_key = client_key c, dialed_key = sp_source_key p\<rparr>)],
          handed := handed c @ [(length (opened c), SnekRouted p)]\<rparr>)"
  using assms
  by (cases c) (auto simp: receive_def receive_frame_def remove_closed_def accept_session_def open_session_def Let_def)

text \<open>
  One session per dialled key, if nothing interferes. A dial succeeds exactly when the table
  has no session for the key, and then a second dial of the key fails.
\<close>

lemma dial_once:
  "fst (dial key c) = (if hm_get (session_senders c) key = None
     then Inr \<lparr>router_key = client_key c, dialed_key = key\<rparr> else Inl SessionAlreadyExists) \<and>
   fst (dial key (snd (dial key c))) = Inl SessionAlreadyExists"
  by (auto simp: dial_def dial_check_def dial_insert_def open_session_def hm_contains_key_def Let_def)

text \<open>
  Two dials at the same time both succeed. The check and the insertion take the table
  separately, so two tasks that dial the same key can both pass the check; the second
  insertion then replaces the first, whose session never receives a frame.
\<close>

theorem dial_race:
  assumes "client_reachable own c" and "hm_get (session_senders c) key = None" and "accepting c = None"
  shows "\<exists>c' ch1 ch2 s. client_step\<^sup>*\<^sup>* c c' \<and> client_reachable own c' \<and> ch1 \<noteq> ch2 \<and>
    (ch1, s) \<in> set (opened c') \<and> (ch2, s) \<in> set (opened c') \<and> dialed_key s = key \<and>
    (\<forall>is_open p. sp_source_key p = key \<and> is_open ch2 \<longrightarrow>
       handed (receive is_open (SnekRouted p) c') = handed c' @ [(ch2, SnekRouted p)])"
proof -
  let ?c1 = "snd (dial_check key c)" let ?c2 = "snd (dial_check key ?c1)"
  let ?c3 = "snd (dial_insert key ?c2)" let ?c4 = "snd (dial_insert key ?c3)"
  let ?n = "length (opened c)" and ?s = "\<lparr>router_key = client_key c, dialed_key = key\<rparr>"
  have c2: "?c2 = c\<lparr>dialing := key # key # dialing c\<rparr>"
    using assms(2) by (simp add: dial_check_def hm_contains_key_def)
  have c4: "?c4 = c\<lparr>session_senders := hm_insert key (Suc ?n) (hm_insert key ?n (session_senders c)),
      opened := opened c @ [(?n, ?s), (Suc ?n, ?s)], dialing := dialing c\<rparr>"
    unfolding c2 by (cases c) (simp add: dial_insert_def open_session_def Let_def)
  have "client_step c ?c1" "client_step ?c1 ?c2" by (rule step_dial_check)+
  moreover have "client_step ?c2 ?c3" by (rule step_dial_insert) (simp add: c2)
  moreover have "client_step ?c3 ?c4"
    by (rule step_dial_insert) (simp add: c2 dial_insert_def open_session_def Let_def)
  ultimately have steps: "client_step\<^sup>*\<^sup>* c ?c4"
    by (meson converse_rtranclp_into_rtranclp rtranclp.rtrancl_refl)
  have reach: "client_step\<^sup>*\<^sup>* c d \<Longrightarrow> client_reachable own d" for d
    by (induction rule: rtranclp_induct) (auto intro: assms(1) client_next)
  have "handed (receive is_open (SnekRouted p) ?c4) = handed ?c4 @ [(Suc ?n, SnekRouted p)]"
    if "sp_source_key p = key" "is_open (Suc ?n)" for is_open p
    using that assms(3)
    by (simp add: c4 receive_def receive_frame_def remove_closed_def accept_session_def split: option.split)
  then show ?thesis
    using steps reach [OF steps]
    by (intro exI [of _ ?c4] exI [of _ ?n] exI [of _ "Suc ?n"] exI [of _ ?s]) (auto simp: c4)
qed

section \<open>Examples\<close>

definition example_packet :: snek_packet where
  "example_packet = \<lparr>sp_destination_key = repeat_byte 5, sp_source_key = repeat_byte 3, sp_payload = [1]\<rparr>"

definition example_client :: client_state where
  "example_client = accept_session (receive_frame (\<lambda>ch. True) (SnekRouted example_packet) (new_client (repeat_byte 5)))"

lemma example_client_reachable: "client_reachable (repeat_byte 5) example_client"
proof -
  let ?c = "receive_frame (\<lambda>ch. True) (SnekRouted example_packet) (new_client (repeat_byte 5))"
  have "client_step (new_client (repeat_byte 5)) ?c"
    by (rule step_receive) (simp_all add: new_client_def)
  moreover have "client_step ?c example_client"
    unfolding example_client_def by (rule step_accept) (simp add: receive_frame_def new_client_def)
  ultimately show ?thesis
    using client_next [OF client_next [OF client_new]] by blast
qed

lemma example_client_eq:
  "example_client = \<lparr>client_key = repeat_byte 5, session_senders = [(repeat_byte 3, 0)],
     opened = [(0, \<lparr>router_key = repeat_byte 5, dialed_key = repeat_byte 3\<rparr>)],
     handed = [(0, SnekRouted example_packet)], dialing = [], accepting = None, removing = None\<rparr>"
  by (simp add: example_client_def receive_frame_def new_client_def accept_session_def open_session_def Let_def
      hm_insert_def example_packet_def)

theorem sessions_isolated_witness: "\<exists>p. SnekRouted example_packet = SnekRouted p \<and> sp_source_key p = repeat_byte 3"
  using sessions_isolated [OF example_client_reachable, of 0 "SnekRouted example_packet"
      "\<lparr>router_key = repeat_byte 5, dialed_key = repeat_byte 3\<rparr>"]
  by (simp add: example_client_eq)

theorem dial_race_witness:
  "\<exists>c' ch1 ch2 s. client_step\<^sup>*\<^sup>* example_client c' \<and> ch1 \<noteq> ch2 \<and>
     (ch1, s) \<in> set (opened c') \<and> (ch2, s) \<in> set (opened c') \<and> dialed_key s = repeat_byte 4"
  using dial_race [OF example_client_reachable, of "repeat_byte 4"]
  by (auto simp: example_client_eq)

end
