(* ===== verification/Chat.thy ===== *)
theory Chat
  imports Client Router
begin

text \<open>
  \<open>src/main.rs\<close>: the command line program. Its menu turns lines of the standard input into
  calls of the client, its chat sends each line as one packet, and a task per incoming session
  prints what it reads. The lemmas show what a typed line becomes at the other end, when that
  end stops listening, and how the menu ends.
\<close>

section \<open>UTF-8\<close>

text \<open>
  \<open>String::from_utf8\<close> and \<open>read_line\<close> accept well-formed UTF-8 only: no overlong forms, no
  surrogates, nothing above \<open>U+10FFFF\<close>.
\<close>

definition utf8_tail :: "u8 \<Rightarrow> bool" where
  "utf8_tail b \<longleftrightarrow> 0x80 \<le> b \<and> b \<le> 0xBF"

definition utf8_length :: "u8 \<Rightarrow> nat" where
  "utf8_length a =
     (if a \<le> 0x7F then 1 else if 0xC2 \<le> a \<and> a \<le> 0xDF then 2 else if 0xE0 \<le> a \<and> a \<le> 0xEF then 3
      else if 0xF0 \<le> a \<and> a \<le> 0xF4 then 4 else 0)"

definition utf8_second :: "u8 \<Rightarrow> u8 \<Rightarrow> bool" where
  "utf8_second a b \<longleftrightarrow> (a = 0xE0 \<longrightarrow> 0xA0 \<le> b) \<and> (a = 0xED \<longrightarrow> b \<le> 0x9F) \<and>
     (a = 0xF0 \<longrightarrow> 0x90 \<le> b) \<and> (a = 0xF4 \<longrightarrow> b \<le> 0x8F)"

text \<open>What is left after the first character.\<close>

definition utf8_char :: "u8 list \<Rightarrow> u8 list option" where
  "utf8_char bs =
     (case bs of
        [] \<Rightarrow> None
      | a # bs \<Rightarrow>
          let n = utf8_length a - 1
          in if utf8_length a = 0 \<or> length bs < n then None
             else if list_all utf8_tail (take n bs) \<and> (0 < n \<longrightarrow> utf8_second a (hd bs)) then Some (drop n bs)
             else None)"

lemma utf8_char_shorter: "utf8_char bs = Some rest \<Longrightarrow> length rest < length bs"
  by (auto simp: utf8_char_def Let_def split: list.splits if_splits)

lemma utf8_char_append: "utf8_char xs = Some rest \<Longrightarrow> utf8_char (xs @ ys) = Some (rest @ ys)"
  by (cases xs) (auto simp: utf8_char_def Let_def hd_append split: if_splits)

function utf8_valid :: "u8 list \<Rightarrow> bool" where
  "utf8_valid bs =
     (if bs = [] then True
      else case utf8_char bs of None \<Rightarrow> False | Some rest \<Rightarrow> utf8_valid rest)"
  by pat_completeness auto
termination
  by (relation "measure length") (auto dest: utf8_char_shorter)

declare utf8_valid.simps [simp del]

lemma utf8_valid_Nil [simp]: "utf8_valid []"
  by (simp add: utf8_valid.simps)

lemma utf8_valid_ascii [simp]: "a \<le> 0x7F \<Longrightarrow> utf8_valid (a # bs) = utf8_valid bs"
  by (simp add: utf8_valid.simps [of "a # bs"] utf8_char_def utf8_length_def)

lemma utf8_valid_append: "utf8_valid xs \<Longrightarrow> utf8_valid ys \<Longrightarrow> utf8_valid (xs @ ys)"
proof (induction xs rule: utf8_valid.induct)
  case (1 bs)
  show ?case
  proof (cases "bs = []")
    case False
    then obtain rest where "utf8_char bs = Some rest" "utf8_valid rest"
      using "1.prems"(1) by (auto simp: utf8_valid.simps [of bs] split: option.splits)
    then show ?thesis
      using 1 False by (simp add: utf8_valid.simps [of "bs @ ys"] utf8_char_append)
  qed (use "1.prems" in simp)
qed

lemma utf8_valid_zeros [simp]: "utf8_valid (replicate n 0)"
  by (induction n) simp_all

section \<open>Reading lines\<close>

text \<open>
  The standard input is a list of bytes. A line must end in a newline and be UTF-8: otherwise an
  \<open>unwrap\<close> panics, also at the end of the input, where \<open>read_line\<close> returns nothing.
\<close>

definition newline :: u8 where
  "newline = 0x0A"

definition read_stdin_line :: "u8 list \<Rightarrow> (u8 list \<times> u8 list) option" where
  "read_stdin_line input =
     (let line = takeWhile (\<lambda>b. b \<noteq> newline) input
      in case dropWhile (\<lambda>b. b \<noteq> newline) input of
           [] \<Rightarrow> None
         | _ # rest \<Rightarrow> if utf8_valid line then Some (line, rest) else None)"

lemma read_stdin_line_shorter: "read_stdin_line input = Some (line, rest) \<Longrightarrow> length rest < length input"
  using length_dropWhile_le [of "\<lambda>b. b \<noteq> newline" input]
  by (auto simp: read_stdin_line_def Let_def split: list.splits if_splits)

lemma read_typed_line:
  "newline \<notin> set line \<Longrightarrow> utf8_valid line \<Longrightarrow> read_stdin_line (line @ newline # rest) = Some (line, rest)"
proof -
  assume line: "newline \<notin> set line" "utf8_valid line"
  then have "takeWhile (\<lambda>b. b \<noteq> newline) (line @ newline # rest) = line"
    "dropWhile (\<lambda>b. b \<noteq> newline) (line @ newline # rest) = newline # rest"
    by (auto simp: takeWhile_append dropWhile_append)
  with line show ?thesis
    by (simp add: read_stdin_line_def)
qed

lemma read_line_input: "read_stdin_line input = Some (line, rest) \<Longrightarrow> input = line @ newline # rest"
  using takeWhile_dropWhile_id [of "\<lambda>b. b \<noteq> newline" input]
  by (auto simp: read_stdin_line_def Let_def split: list.splits if_splits dest: dropWhile_eq_Cons_conv [THEN iffD1])

text \<open>ASCII text in the program.\<close>

definition ascii :: "string \<Rightarrow> u8 list" where
  "ascii s = map (\<lambda>c. of_nat (of_char c)) s"

section \<open>The chat\<close>

text \<open>How the program ends: in order, by a panic, or waiting for ever.\<close>

datatype ending = Stopped | Panicked | Hangs

text \<open>
  \<open>write_all\<close> of tokio writes nothing for an empty buffer; otherwise one \<open>poll_write\<close> takes all.
  The \<open>Pending\<close> of a full channel wakes nobody up.
\<close>

definition write_all ::
  "send_session \<Rightarrow> (frame \<Rightarrow> send_answer) \<Rightarrow> u8 list \<Rightarrow> (io_error + unit) poll \<times> frame list" where
  "write_all s try_send buf =
     (if buf = [] then (Ready (Inr ()), [])
      else case send_poll_write s try_send buf of
        (Ready (Inr n), Some f) \<Rightarrow> (Ready (Inr ()), [f])
      | (Ready (Inl e), _) \<Rightarrow> (Ready (Inl e), [])
      | _ \<Rightarrow> (Pending, []))"

text \<open>The loop returns the frames sent and, unless the program ended in it, the rest of the input.\<close>

function chat_loop :: "send_session \<Rightarrow> (frame \<Rightarrow> send_answer) \<Rightarrow> u8 list \<Rightarrow> frame list \<times> (ending + u8 list)" where
  "chat_loop s try_send input =
     (case read_stdin_line input of
        None \<Rightarrow> ([], Inl Panicked)
      | Some (line, rest) \<Rightarrow>
          if line = ascii ''exit'' then ([], Inr rest)
          else (case write_all s try_send line of
              (Ready (Inr _), fs) \<Rightarrow> (let (fs', e) = chat_loop s try_send rest in (fs @ fs', e))
            | (Ready (Inl _), fs) \<Rightarrow> (fs, Inl Panicked)
            | (Pending, fs) \<Rightarrow> (fs, Inl Hangs)))"
  by pat_completeness auto
termination
  by (relation "measure (\<lambda>(s, try_send, input). length input)") (auto dest: read_stdin_line_shorter)

declare chat_loop.simps [simp del]

lemma chat_loop_rest:
  "chat_loop s try_send input = (fs, e) \<Longrightarrow>
    e = Inl Panicked \<or> e = Inl Hangs \<or> (\<exists>rest pre. e = Inr rest \<and> input = pre @ rest \<and> pre \<noteq> [])"
proof (induction s try_send input arbitrary: fs rule: chat_loop.induct)
  case (1 s try_send input)
  show ?case
  proof (cases "read_stdin_line input")
    case None
    then show ?thesis
      using "1.prems" by (simp add: chat_loop.simps)
  next
    case (Some lr)
    obtain line rest where line: "lr = (line, rest)" by (cases lr)
    then have input: "input = line @ newline # rest"
      using Some by (simp add: read_line_input)
    show ?thesis
    proof (cases "line = ascii ''exit''")
      case True
      then have "e = Inr rest"
        using "1.prems" Some line by (simp add: chat_loop.simps [of s try_send input])
      then show ?thesis
        using input by (metis append_Cons append_Nil append_assoc append_is_Nil_conv list.distinct(1))
    next
      case False
      obtain w fs0 where w: "write_all s try_send line = (w, fs0)"
        by fastforce
      then consider "e = Inl Panicked" | "e = Inl Hangs"
        | u fs1 where "w = Ready (Inr u)" "chat_loop s try_send rest = (fs1, e)"
        using "1.prems" Some line False
        by (cases w) (auto simp: chat_loop.simps [of s try_send input] split: sum.splits prod.splits)
      then show ?thesis
      proof cases
        case (3 u fs1)
        have "e = Inl Panicked \<or> e = Inl Hangs \<or> (\<exists>rest' pre. e = Inr rest' \<and> rest = pre @ rest' \<and> pre \<noteq> [])"
          using "1.IH" [OF Some line [symmetric] False w [symmetric] 3(1) refl 3(2)] .
        then show ?thesis
          using input by auto
      qed simp_all
    qed
  qed
qed

lemma chat_loop_shorter: "chat_loop s try_send input = (fs, Inr rest) \<Longrightarrow> length rest < length input"
  by (drule chat_loop_rest) auto

section \<open>Printing what a session reads\<close>

text \<open>
  One round of the task of a session: it reads into a fresh buffer of 20 zero bytes and prints
  the whole buffer. Nothing read counts as the end of the session.
\<close>

datatype message = Text "u8 list" | Not_Utf8

datatype chat_round = Session_Ended | Read_Error io_error | Printed message

definition read_round :: "recv_answer \<Rightarrow> chat_round poll" where
  "read_round answer =
     (case poll_read answer \<lparr>buf_capacity = 20, buf_filled = []\<rparr> of
        (Pending, _) \<Rightarrow> Pending
      | (Ready (Inl e), _) \<Rightarrow> Ready (Read_Error e)
      | (Ready (Inr _), b) \<Rightarrow>
          if buf_filled b = [] then Ready Session_Ended
          else let buf = buf_filled b @ replicate (20 - length (buf_filled b)) 0
            in Ready (Printed (if utf8_valid buf then Text buf else Not_Utf8)))"

text \<open>The loop over what the channel answers; the second part is how it ended, if it did.\<close>

fun print_session :: "recv_answer list \<Rightarrow> message list \<times> chat_round option" where
  "print_session [] = ([], None)"
| "print_session (answer # answers) =
     (case read_round answer of
        Pending \<Rightarrow> print_session answers
      | Ready (Printed m) \<Rightarrow> (let (ms, e) = print_session answers in (m # ms, e))
      | Ready r \<Rightarrow> ([], Some r))"

text \<open>
  The task that takes the incoming sessions: each gets a task of its own that prints what it
  reads, after the key of the other end, whatever happens to the others.
\<close>

fun listen_sessions :: "(session \<times> recv_answer list) list \<Rightarrow> (public_key \<times> message list \<times> chat_round option) list" where
  "listen_sessions [] = []"
| "listen_sessions ((session, answers) # later) = (peer_key session, print_session answers) # listen_sessions later"

lemma listen_sessions_nth:
  "i < length sessions \<Longrightarrow> listen_sessions sessions ! i =
    (peer_key (fst (sessions ! i)), print_session (snd (sessions ! i)))"
  by (induction sessions arbitrary: i rule: listen_sessions.induct) (auto simp: nth_Cons split: nat.split)

section \<open>The menu\<close>

text \<open>
  What the program takes from outside: whether an address can be connected to, how \<open>serde_json\<close>
  reads a key, and what the client's channel answers to a frame.
\<close>

record world =
  connects :: "u8 list \<Rightarrow> bool"
  parse_key :: "u8 list \<Rightarrow> public_key option"
  upload_send :: "frame \<Rightarrow> send_answer"

datatype program_call = Connect_Peer "u8 list" | Send_Frame frame | Disconnect_Peer public_key | Stop_Router

text \<open>
  The calls of the client and the end of the program. A connection that fails panics; the result
  of \<open>connect_peer\<close> is only logged.
\<close>

function main_menu :: "world \<Rightarrow> client_state \<Rightarrow> u8 list \<Rightarrow> program_call list \<times> ending" where
  "main_menu W c input =
     (case read_stdin_line input of
        None \<Rightarrow> ([], Panicked)
      | Some (line, rest) \<Rightarrow>
          if line = ascii ''1'' then
            (case read_stdin_line rest of
               None \<Rightarrow> ([], Panicked)
             | Some (address, rest) \<Rightarrow>
                 if connects W address
                 then (let (calls, e) = main_menu W c rest in (Connect_Peer address # calls, e))
                 else ([], Panicked))
          else if line = ascii ''2'' then
            (case read_stdin_line rest of
               None \<Rightarrow> ([], Panicked)
             | Some (key, rest) \<Rightarrow>
                 (case parse_key W key of
                    None \<Rightarrow> main_menu W c rest
                  | Some k \<Rightarrow>
                      (case chat_loop (dial_send k c) (upload_send W) rest of
                         (fs, Inl e) \<Rightarrow> (map Send_Frame fs, e)
                       | (fs, Inr rest) \<Rightarrow> (let (calls, e) = main_menu W c rest in (map Send_Frame fs @ calls, e)))))
          else if line = ascii ''3'' then
            (case read_stdin_line rest of
               None \<Rightarrow> ([], Panicked)
             | Some (key, rest) \<Rightarrow>
                 (case parse_key W key of
                    None \<Rightarrow> main_menu W c rest
                  | Some k \<Rightarrow> (let (calls, e) = main_menu W c rest in (Disconnect_Peer k # calls, e))))
          else if line = ascii ''4'' then ([Stop_Router], Stopped)
          else main_menu W c rest)"
  by pat_completeness auto
termination
  by (relation "measure (\<lambda>(W, c, input). length input)")
    (auto dest!: read_stdin_line_shorter chat_loop_shorter [OF sym])

declare main_menu.simps [simp del]

text \<open>
  What a call does to the router, which the client passes it on to; frames sent go through the
  channel its local loop reads. Each call is a step of the router, so its invariants hold
  throughout the program.
\<close>

definition perform_call ::
  "env \<Rightarrow> connection \<Rightarrow> connection \<Rightarrow> (router_error + frame) option \<Rightarrow> program_call \<Rightarrow> unit router_act" where
  "perform_call E upload download first call =
     (case call of
        Connect_Peer address \<Rightarrow> act_bind (connect E upload download first) (\<lambda>res. act_ret ())
      | Send_Frame f \<Rightarrow> act_bind (local_frame E f) (\<lambda>res. act_ret ())
      | Disconnect_Peer key \<Rightarrow> disconnect_peer E key
      | Stop_Router \<Rightarrow> stop E)"

lemma snd_act_bind_ret: "snd (act_bind m (\<lambda>x. act_ret y) r) = snd (m r)"
  by (auto simp: act_bind_def act_ret_def split: prod.split option.split)

lemma perform_call_step:
  "env_crypto E = C \<Longrightarrow> router_step C r (snd (perform_call E upload download first call r))"
  by (cases call)
    (auto simp: perform_call_def snd_act_bind_ret intro: router_step.intros)

section \<open>What is typed is shown\<close>

text \<open>A line the chat transmits: not empty, not the word that ends it, and of at most 20 bytes.\<close>

definition chat_line :: "u8 list \<Rightarrow> bool" where
  "chat_line line \<longleftrightarrow> newline \<notin> set line \<and> utf8_valid line \<and> line \<noteq> [] \<and> line \<noteq> ascii ''exit'' \<and> length line \<le> 20"

lemma read_round_packet:
  "read_round (Ready (Some (send_session_frame s line))) =
     (if 20 < length line then Ready (Read_Error (Io_Error Out_Of_Memory ''Buffer not large enough''))
      else if line = [] then Ready Session_Ended
      else let buf = line @ replicate (20 - length line) 0
        in Ready (Printed (if utf8_valid buf then Text buf else Not_Utf8)))"
  by (simp add: read_round_def poll_read_def send_session_frame_def buf_remaining_def buf_put_slice_def Let_def)

lemma chat_loop_exit: "chat_loop s t (ascii ''exit'' @ newline # rest) = ([], Inr rest)"
proof -
  have "read_stdin_line (ascii ''exit'' @ newline # rest) = Some (ascii ''exit'', rest)"
    by (rule read_typed_line) (simp_all add: ascii_def newline_def)
  then show ?thesis by (simp add: chat_loop.simps)
qed

lemma chat_loop_line:
  "chat_line line \<Longrightarrow> t (send_session_frame s line) = Send_Ok \<Longrightarrow>
    chat_loop s t (line @ newline # input) =
      (let (fs, e) = chat_loop s t input in (send_session_frame s line # fs, e))"
  by (subst chat_loop.simps)
    (simp add: read_typed_line chat_line_def write_all_def send_poll_write_def Let_def split: prod.split)

lemma print_session_line:
  "chat_line line \<Longrightarrow>
    print_session (Ready (Some (send_session_frame s line)) # answers) =
      (let (ms, e) = print_session answers in (Text (line @ replicate (20 - length line) 0) # ms, e))"
  by (simp add: read_round_packet chat_line_def utf8_valid_append Let_def)

text \<open>
  C23: what is typed into the chat is shown at the other end. Lines of one to 20 bytes other than
  the word that ends the chat each become one packet, as long as the channel takes them; the
  program at the other end prints each packet it gets as that line, filled up with zero bytes to
  20, and goes on reading.
\<close>

theorem chat_roundtrip:
  assumes "\<forall>line \<in> set lines. chat_line line \<and> t (send_session_frame s line) = Send_Ok"
  shows "chat_loop s t (concat (map (\<lambda>line. line @ [newline]) lines) @ ascii ''exit'' @ newline # rest) =
      (map (send_session_frame s) lines, Inr rest) \<and>
    print_session (map (\<lambda>line. Ready (Some (send_session_frame s line))) lines) =
      (map (\<lambda>line. Text (line @ replicate (20 - length line) 0)) lines, None)"
  using assms
  by (induction lines) (simp_all add: chat_loop_exit chat_loop_line print_session_line del: print_session.simps(2))

text \<open>
  A long message costs the session and the next message. A packet of more than 20 bytes from
  a node with an open session is put into the session's channel, but the task that reads it
  fails without printing anything and gives the session up. The next packet from that node finds
  the channel closed and is lost; the one after opens a new session.
\<close>

theorem long_message_loses_two:
  assumes "accepting c = None" and "removing c = None" and "hm_get (session_senders c) (send_router_key s) = Some ch"
    and "20 < length long" and "is_open ch" and "\<not> is_open' ch"
  shows "let frame = send_session_frame s;
      c1 = receive is_open (frame long) c; c2 = receive is_open' (frame lost) c1;
      c3 = receive is_open' (frame late) c2
    in handed c1 = handed c @ [(ch, frame long)] \<and>
       print_session (Ready (Some (frame long)) # answers) =
         ([], Some (Read_Error (Io_Error Out_Of_Memory ''Buffer not large enough''))) \<and>
       handed c2 = handed c1 \<and> opened c2 = opened c \<and>
       handed c3 = handed c2 @ [(length (opened c), frame late)]"
  using assms
  by (simp add: Let_def read_round_packet)
    (simp add: receive_def receive_frame_def remove_closed_def accept_session_def open_session_def send_session_frame_def Let_def)

section \<open>How the program ends\<close>

text \<open>What the end of the program says about its calls and its input.\<close>

definition ends_well :: "u8 list \<Rightarrow> program_call list \<times> ending \<Rightarrow> bool" where
  "ends_well input res \<longleftrightarrow>
     (if snd res = Stopped
      then (\<exists>pre post. input = pre @ ascii ''4'' @ newline # post) \<and>
        fst res \<noteq> [] \<and> last (fst res) = Stop_Router \<and> Stop_Router \<notin> set (butlast (fst res))
      else Stop_Router \<notin> set (fst res))"

lemma ends_well_later:
  assumes "ends_well rest (calls, e)" and "Stop_Router \<notin> set before"
  shows "ends_well (pre @ rest) (before @ calls, e)"
proof -
  have "\<exists>p q. pre @ rest = p @ ascii ''4'' @ newline # q" if "\<exists>p q. rest = p @ ascii ''4'' @ newline # q"
    using that by (metis append_assoc)
  then show ?thesis
    using assms by (auto simp: ends_well_def butlast_append split: if_splits)
qed

lemma ends_well_same: "ends_well rest (calls, e) \<Longrightarrow> ends_well (pre @ rest) (calls, e)"
  using ends_well_later [of rest calls e "[]" pre] by simp

lemma ends_well_call:
  "ends_well rest (calls, e) \<Longrightarrow> call \<noteq> Stop_Router \<Longrightarrow> ends_well (pre @ rest) (call # calls, e)"
  using ends_well_later [of rest calls e "[call]" pre] by simp

lemma ends_well_early: "e \<noteq> Stopped \<Longrightarrow> Stop_Router \<notin> set calls \<Longrightarrow> ends_well input (calls, e)"
  by (simp add: ends_well_def)

lemma main_menu_ends_well: "ends_well input (main_menu W c input)"
proof (induction "length input" arbitrary: input rule: less_induct)
  case less
  show ?case
  proof (cases "read_stdin_line input")
    case None
    then show ?thesis
      by (simp add: main_menu.simps [of W c input] ends_well_early)
  next
    case (Some lr)
    obtain line rest where lr: "lr = (line, rest)" by (cases lr)
    then have input: "input = (line @ [newline]) @ rest"
      using Some by (simp add: read_line_input)
    then have again: "ends_well rest (main_menu W c rest)"
      using less by simp
    have shorter: "ends_well rest' (main_menu W c rest')" if "input = pre @ rest'" "pre \<noteq> []" for pre rest'
      using less that by simp
    have menu: "main_menu W c input =
       (if line = ascii ''1'' then
          (case read_stdin_line rest of
             None \<Rightarrow> ([], Panicked)
           | Some (address, rest) \<Rightarrow>
               if connects W address
               then (let (calls, e) = main_menu W c rest in (Connect_Peer address # calls, e))
               else ([], Panicked))
        else if line = ascii ''2'' then
          (case read_stdin_line rest of
             None \<Rightarrow> ([], Panicked)
           | Some (key, rest) \<Rightarrow>
               (case parse_key W key of
                  None \<Rightarrow> main_menu W c rest
                | Some k \<Rightarrow>
                    (case chat_loop (dial_send k c) (upload_send W) rest of
                       (fs, Inl e) \<Rightarrow> (map Send_Frame fs, e)
                     | (fs, Inr rest) \<Rightarrow> (let (calls, e) = main_menu W c rest in (map Send_Frame fs @ calls, e)))))
        else if line = ascii ''3'' then
          (case read_stdin_line rest of
             None \<Rightarrow> ([], Panicked)
           | Some (key, rest) \<Rightarrow>
               (case parse_key W key of
                  None \<Rightarrow> main_menu W c rest
                | Some k \<Rightarrow> (let (calls, e) = main_menu W c rest in (Disconnect_Peer k # calls, e))))
        else if line = ascii ''4'' then ([Stop_Router], Stopped)
        else main_menu W c rest)"
      using Some lr by (simp add: main_menu.simps [of W c input])
    show ?thesis
    proof (cases "line = ascii ''4'' \<or> line \<notin> {ascii ''1'', ascii ''2'', ascii ''3''} \<or> read_stdin_line rest = None")
      case True
      have "input = [] @ ascii ''4'' @ newline # rest" if "line = ascii ''4''"
        using input that by simp
      then have "line = ascii ''4'' \<Longrightarrow> ends_well input ([Stop_Router], Stopped)"
        unfolding ends_well_def by fastforce
      moreover have "ends_well input (main_menu W c rest)"
        using ends_well_same [of rest] shorter [OF input] input by (metis append_is_Nil_conv not_Cons_self2 prod.exhaust)
      ultimately show ?thesis
        using True by (auto simp: menu ascii_def ends_well_early)
    next
      case False
      then obtain arg rest' where arg: "read_stdin_line rest = Some (arg, rest')" by auto
      then have input': "input = (line @ newline # arg @ [newline]) @ rest'"
        using input by (simp add: read_line_input)
      obtain calls e where rec: "main_menu W c rest' = (calls, e)" "ends_well rest' (calls, e)"
        using shorter [OF input'] by (cases "main_menu W c rest'") simp
      have chat: "ends_well input (map Send_Frame fs @ calls', e')"
        if sent: "chat_loop s t rest' = (fs, Inr rest'')" and menu: "main_menu W c rest'' = (calls', e')"
        for s t fs rest'' calls' e'
      proof -
        obtain pre where "rest' = pre @ rest''"
          using chat_loop_rest [OF sent] by auto
        then have whole: "input = (line @ newline # arg @ newline # pre) @ rest''"
          using input' by simp
        then have "ends_well rest'' (calls', e')"
          using shorter [OF whole] menu by simp
        then show ?thesis
          unfolding whole by (rule ends_well_later) auto
      qed
      have hang: "e' \<noteq> Stopped" if "chat_loop s t rest' = (fs, Inl e')" for s t fs e'
        using chat_loop_rest [OF that] by auto
      have one: "ends_well input (calls, e)" "call \<noteq> Stop_Router \<Longrightarrow> ends_well input (call # calls, e)" for call
        unfolding input' by (rule ends_well_same ends_well_call; use rec(2) in simp)+
      have talk: "ends_well input
          (case chat_loop (dial_send k c) (upload_send W) rest' of
             (fs, Inl e) \<Rightarrow> (map Send_Frame fs, e)
           | (fs, Inr rest) \<Rightarrow> (let (calls, e) = main_menu W c rest in (map Send_Frame fs @ calls, e)))" for k
      proof (cases "chat_loop (dial_send k c) (upload_send W) rest'")
        case (Pair fs res)
        show ?thesis
        proof (cases res)
          case (Inl e')
          then have "e' \<noteq> Stopped"
            using hang Pair by blast
          then show ?thesis
            using Pair Inl by (auto intro: ends_well_early)
        next
          case (Inr rest'')
          then show ?thesis
            using Pair by (auto intro: chat split: prod.split)
        qed
      qed
      consider "line = ascii ''1''" | "line = ascii ''2''" "line \<noteq> ascii ''1''"
        | "line = ascii ''3''" "line \<noteq> ascii ''1''" "line \<noteq> ascii ''2''"
        using False by blast
      then show ?thesis
      proof cases
        case 1
        then show ?thesis
          using arg rec(1) one(2) by (simp add: menu ends_well_early)
      next
        case 2
        show ?thesis
        proof (cases "parse_key W arg")
          case None
          then show ?thesis
            using 2 arg rec(1) one(1) by (simp add: menu)
        next
          case (Some k)
          then have "main_menu W c input =
              (case chat_loop (dial_send k c) (upload_send W) rest' of
                 (fs, Inl e) \<Rightarrow> (map Send_Frame fs, e)
               | (fs, Inr rest) \<Rightarrow> (let (calls, e) = main_menu W c rest in (map Send_Frame fs @ calls, e)))"
            using 2 arg by (auto simp: menu split: prod.split sum.split)
          then show ?thesis
            using talk [of k] by (simp only:)
        qed
      next
        case 3
        then show ?thesis
          using arg rec(1) one by (simp add: menu split: option.split)
      qed
    qed
  qed
qed

text \<open>
  How the program ends. If it ends in order, a line \<open>4\<close> was typed, and the router is stopped
  once, by the last call. Otherwise the router is never stopped: the program panics, as it does
  at the end of its input, at a line that is not UTF-8 and at a failed connection, or hangs on a
  full channel.
\<close>

theorem program_end:
  "case main_menu W c input of (calls, e) \<Rightarrow>
     if e = Stopped
     then (\<exists>pre post others. input = pre @ ascii ''4'' @ newline # post \<and>
       calls = others @ [Stop_Router] \<and> Stop_Router \<notin> set others)
     else Stop_Router \<notin> set calls \<and> (e = Panicked \<or> e = Hangs)"
proof -
  obtain calls e where run: "main_menu W c input = (calls, e)" by fastforce
  then have ends: "ends_well input (calls, e)"
    using main_menu_ends_well [of input W c] by simp
  show ?thesis
  proof (cases "e = Stopped")
    case True
    then obtain pre post where "input = pre @ ascii ''4'' @ newline # post" "calls \<noteq> []"
      "last calls = Stop_Router" "Stop_Router \<notin> set (butlast calls)"
      using ends by (auto simp: ends_well_def)
    moreover from this have "calls = butlast calls @ [Stop_Router]"
      by (metis append_butlast_last_id)
    ultimately show ?thesis
      using True run by auto
  next
    case False
    then show ?thesis
      using ends run by (cases e) (auto simp: ends_well_def)
  qed
qed

section \<open>Incoming connections\<close>

text \<open>
  The task that accepts connections. A connection comes with the environment of its handshake,
  its sockets and the first item of its stream; \<open>None\<close> is an error of \<open>accept\<close>. Both results are
  unwrapped, and at the end of the list the task waits.
\<close>

type_synonym incoming = "(env \<times> connection \<times> connection \<times> (router_error + frame) option) option"

fun accept_loop :: "incoming list \<Rightarrow> unit router_act" where
  "accept_loop [] = act_ret ()"
| "accept_loop (None # connections) = act_panic"
| "accept_loop (Some (E, upload, download, first) # connections) =
     act_bind (connect E upload download first) (\<lambda>res.
       case res of Inl e \<Rightarrow> act_panic | Inr key \<Rightarrow> accept_loop connections)"

lemma accept_loop_append: "accept_loop (xs @ ys) = act_seq (accept_loop xs) (accept_loop ys)"
proof (induction xs rule: accept_loop.induct)
  case (3 E upload download first connections)
  then show ?case
    by (auto simp: fun_eq_iff act_seq_def act_bind_def act_panic_def split: option.split prod.split sum.split)
qed (simp_all add: fun_eq_iff act_seq_def act_bind_def act_ret_def act_panic_def)

text \<open>
  C36: one bad handshake ends the listening. Whatever connections were accepted before, one
  whose sink refuses the announcement or whose first item is not a signed announcement panics
  the task: the port reserved for it stays reserved, and no later connection is accepted.
\<close>

theorem bad_handshake_ends_listening:
  assumes "accept_loop earlier r0 = (Some (), r)" and "new_port_from (ports r) 1 = Some p"
    and "greeting_error (env_sink_send E u (TreeAnnouncement
      (append_signature (env_crypto E) (current_announcement (env_now E) r) (private_key r) p))) first = Some e"
  shows "accept_loop (earlier @ Some (E, u, d, first) # later) r0 = (None, r\<lparr>ports := hm_insert p None (ports r)\<rparr>)"
  using assms(1) failed_connect_run [OF assms(2,3), of d]
  by (simp add: accept_loop_append act_seq_def act_bind_def act_panic_def)

section \<open>Examples\<close>

definition example_menu :: world where
  "example_menu = \<lparr>connects = \<lambda>address. True, parse_key = \<lambda>line. Some (repeat_byte 3),
     upload_send = \<lambda>frame. Send_Ok\<rparr>"

theorem chat_roundtrip_witness:
  "let s = \<lparr>send_router_key = repeat_byte 1, send_dialed_key = repeat_byte 3\<rparr>
   in chat_loop s (\<lambda>frame. Send_Ok) (ascii ''hi'' @ [newline] @ ascii ''exit'' @ [newline]) =
        ([send_session_frame s (ascii ''hi'')], Inr []) \<and>
      print_session [Ready (Some (send_session_frame s (ascii ''hi'')))] =
        ([Text (ascii ''hi'' @ replicate 18 0)], None)"
proof -
  have "chat_line (ascii ''hi'')"
    by (simp add: chat_line_def ascii_def newline_def)
  then show ?thesis
    using chat_roundtrip [of "[ascii ''hi'']" "\<lambda>frame. Send_Ok"
        "\<lparr>send_router_key = repeat_byte 1, send_dialed_key = repeat_byte 3\<rparr>" "[]"]
    by (simp add: Let_def ascii_def)
qed

theorem long_message_loses_two_witness:
  "let s = \<lparr>send_router_key = repeat_byte 3, send_dialed_key = repeat_byte 1\<rparr>;
     frame = send_session_frame s; c = receive (\<lambda>ch. True) (frame [0x41]) (new_client (repeat_byte 1));
     c1 = receive (\<lambda>ch. True) (frame (replicate 21 0x41)) c; c2 = receive (\<lambda>ch. False) (frame [0x42]) c1
   in handed c2 = [(0, frame [0x41]), (0, frame (replicate 21 0x41))]"
proof -
  let ?s = "\<lparr>send_router_key = repeat_byte 3, send_dialed_key = repeat_byte 1\<rparr>"
  let ?c = "receive (\<lambda>ch. True) (send_session_frame ?s [0x41]) (new_client (repeat_byte 1))"
  have c: "accepting ?c = None" "removing ?c = None" "hm_get (session_senders ?c) (send_router_key ?s) = Some 0"
    "handed ?c = [(0, send_session_frame ?s [0x41])]"
    by (simp_all add: receive_def receive_frame_def remove_closed_def accept_session_def open_session_def send_session_frame_def
        new_client_def Let_def)
  show ?thesis
    using long_message_loses_two [of ?c ?s 0 "replicate 21 0x41" "\<lambda>ch. True" "\<lambda>ch. False" "[0x42]" "[]" "[]"] c
    by (simp add: Let_def)
qed

text \<open>A run of the menu: chat one line with a node, disconnect it and stop.\<close>

lemma example_program:
  "main_menu example_menu (new_client (repeat_byte 1))
     (ascii ''2'' @ newline # newline # ascii ''hi'' @ newline # ascii ''exit'' @ newline #
      ascii ''3'' @ newline # newline # ascii ''4'' @ [newline]) =
     ([Send_Frame (SnekRouted \<lparr>sp_destination_key = repeat_byte 3, sp_source_key = repeat_byte 1,
         sp_payload = ascii ''hi''\<rparr>), Disconnect_Peer (repeat_byte 3), Stop_Router], Stopped)"
  by (simp add: main_menu.simps chat_loop.simps read_stdin_line_def ascii_def newline_def example_menu_def
      write_all_def send_poll_write_def send_session_frame_def dial_send_def new_client_def Let_def)

theorem bad_handshake_ends_listening_witness:
  "\<exists>r. accept_loop [Some (example_env, 2, 2, None), Some (example_env, 5, 5, None)] example_router = (None, r)"
proof -
  have "accept_loop [] example_router = (Some (), example_router)"
    by (simp add: act_ret_def)
  moreover have "greeting_error (env_sink_send example_env 2 frame) None = Some ConnectionClosed" for frame
    by (simp add: greeting_error_def)
  ultimately show ?thesis
    using bad_handshake_ends_listening [OF _ example_new_port] by (metis append_Nil)
qed

end
