(* ===== verification/Spec2Isabelle.thy ===== *)
theory Spec2Isabelle
  imports Network Snek_Links Locks Lock_Safety Router_Tests Path_Agreement Wire_Language Connection Chat
begin

text \<open>
  A model of \<open>rust_pinecone\<close> in Isabelle/HOL: the router of a pinecone overlay network, its
  frames and wire codec, and the client with its sessions. All paths below are under
  \<open>src/src/\<close>.

  \<^bold>\<open>The program.\<close> Nodes are known by ed25519 public keys. Peers connect over byte streams whose
  frames \<open>wire_frame.rs\<close> encodes. A spanning tree is grown by signed announcements
  (\<open>frames.rs\<close>, \<open>tree.rs\<close>): every node follows the strongest root its peers announce, and the
  ports on the way from the root are its coordinates (\<open>coordinates.rs\<close>), by which frames are
  routed greedily. Over the tree lies a virtual snake (\<open>snek.rs\<close>): nodes in the order of their
  keys set up paths to the next higher key, and data frames follow these paths towards a key.
  The handlers of both, the peers, the timers and the tasks are in \<open>router.rs\<close>. A client
  (\<open>client.rs\<close>) owns a router and gives out sessions (\<open>session.rs\<close>) with other nodes.

  \<^bold>\<open>The theories.\<close>
  \<^item> \<open>Prelude\<close>: machine words with checked arithmetic, fixed byte arrays, time, hash maps as
    lists of entries, and the actions in which handlers are written: they pass the state on and
    return \<open>None\<close> for a panic, keeping what was written before it. The collection \<open>preserve\<close>
    derives that an action keeps an invariant from its parts.
  \<^item> \<open>Byte_Buffer\<close>, \<open>Wire_Frame\<close>: the buffer operations the codec uses, then encoding and decoding
    of every frame type. The locales \<open>field_codec\<close> and \<open>stream_codec\<close> state that a field or a
    sequence of fields reads back what was written.
  \<^item> \<open>Wire_Language\<close>: the buffers the decoder accepts, byte for byte. The locale \<open>canonical_codec\<close>
    states that a field has one encoding only.
  \<^item> \<open>Connection\<close>: the two kinds of connection, the error conversions, and the decoder run over the
    bytes of a stream.
  \<^item> \<open>Tree_Root\<close>, \<open>Coordinates\<close>, \<open>Frames\<close>, \<open>Snek\<close>, \<open>Wait_Timer\<close>: the data, one theory per
    source file: roots and their order, distances, announcements with signing and the integrity
    check, path entries with their expiry, the timer.
  \<^item> \<open>Router_State\<close>: the fields of \<open>Router\<close> as a record, the port table, the counters, the current
    announcement and sending.
  \<^item> \<open>Selection\<close>: the locale \<open>preference\<close>, a loop that keeps the best candidate so far; the three
    searches of the router interpret it.
  \<^item> \<open>Router_Tree\<close>: \<open>next_tree_hop\<close>, \<open>handle_tree_announcement\<close>, \<open>parent_selection\<close>,
    \<open>maintain_tree\<close>.
  \<^item> \<open>Router_Snek\<close>, \<open>Snek_Invariant\<close>: \<open>next_snek_hop\<close>, bootstraps, setups, their ACKs, teardowns and
    \<open>maintain_snek\<close>; then the invariant of the paths and the effect of each handler.
    Here, in \<open>Router_State\<close> and \<open>Router_Tree\<close>, \<open>frame_sends\<close> and the locales that extend it state what
    an invariant has to bear so that every operation keeps it; \<open>frame_contract\<close> in \<open>Router\<close> collects
    this for the whole router, for any bound on the frames it hears.
  \<^item> \<open>Router\<close>: \<open>handle_frame\<close>, \<open>connect\<close>, \<open>add_peer\<close>, \<open>disconnect_peer\<close>, \<open>start\<close>, \<open>stop\<close>, the loops and
    the tasks, and the step relation \<open>router_step\<close> of a whole router.
  \<^item> \<open>Router_Steps\<close>: a step hears no frame of a given kind, or handles one. With it, how the table of
    announcements may change in a step.
  \<^item> \<open>Snek_Links\<close>: the abstract specification of the snake. A node has a link above, one below and
    one it has asked for; \<open>link_event\<close> says which frame may change which of them and when.
    \<open>links_of\<close> reads the links off a router, and every step of \<open>router_step\<close> is one event or only
    drops links.
  \<^item> \<open>Lock_Traces\<close>: for every operation of the router the list of the locks it acquires and
    releases, as a function of the state. \<open>Lock_Safety\<close>: what an operation changes is covered by
    the locks in its list. \<open>Locks\<close>: \<open>lock_step\<close> runs any number of these lists as threads, with or
    without the queueing of tokio.
  \<^item> \<open>Router_Tests\<close>: the tests of \<open>router.rs\<close> as scenarios over the model, without the codec between
    router and test, and with the peer's hang-up at the point where the test waits for a frame.
  \<^item> \<open>Network\<close>: many routers, and the way of a packet through them.
  \<^item> \<open>Honest_Node\<close>, \<open>Node_Network\<close>, \<open>Two_Nodes\<close>: what a router says about the tree given what it hears;
    then the network as the step relation \<open>net_step\<close>, in which every node is a router and hears
    from another only what that one said, after any delay, repeated, out of order or not at all;
    then a run of two nodes until they are linked in the snake. \<open>Path_Agreement\<close>: the frames of the
    snake that a node originates answer frames it heard, and paths rest on such frames.
  \<^item> \<open>Session\<close>, \<open>Client\<close>: reading, writing, dialling and the receive loop as the step relation
    \<open>client_step\<close>.
  \<^item> \<open>Chat\<close>: the command line program of \<open>main.rs\<close>: its menu and chat as functions of the typed
    bytes, the printing of incoming sessions, and the accepting of connections.

  \<^bold>\<open>How code and model correspond.\<close> A definition has the name of the function it models. A
  handler is an action over \<open>router_state\<close>, whose fields are those of the struct, each without
  its lock. The fields \<open>sent\<close>, \<open>delivered\<close> and \<open>spawned\<close> record what leaves the router: frames to
  peers' sinks, frames to the local client, tasks given to \<open>tokio::spawn\<close>. Logging is left out.
  An unwrap of \<open>None\<close>, an arithmetic overflow and an index out of range are panics; overflow is
  checked, as in a debug build, and in a release build it would wrap instead. What comes from
  outside is an argument: the record \<open>env\<close> holds the signature scheme, the clock, a random
  number, what each sink answers and whether the client listens; what a stream yields and what
  a channel answers are arguments of the functions that ask. The signature scheme is only
  assumed to verify what it signed, in \<open>crypto_correct\<close>.

  A hash map is a list of its entries in iteration order. Rust leaves the order open, so the
  theorems about loops over a table hold for every list.

  \<^bold>\<open>Steps.\<close> A step of \<open>router_step\<close> is one call of a public function, one round of a loop or one
  run of a spawned task, complete, with any clock and any answers of the environment; steps
  follow one another in any order. The relation allows more than the program does: a loop that
  has ended may run again, and a wait may be over at once. A panic ends the task but not the
  router. Handlers are atomic in these steps. What they lock while they run, and which of them
  can block each other, is modelled in \<open>Locks\<close>; in \<open>Client\<close> the two accesses of a dial, of an
  acceptance and of the removal of a closed session are steps of their own. A task that does nothing but spawn
  another one, as in \<open>maintain_snek\<close>, is that other task. Other interleavings inside a handler are not modelled.
  \<open>heard_step\<close> is \<open>router_step\<close> with a bound on the frames a router may hear; \<open>net_step\<close> takes what
  the other nodes said as that bound.

  \<^bold>\<open>What is proved.\<close> The codec reads back every frame it can transport; which
  buffers it accepts; and what happens to every part of a frame and to oversized ones. The integrity check accepts exactly the
  announcements signed along a path from the root. Each search returns the best candidate. The
  invariants of \<open>Router\<close> hold in every reachable state: stored announcements are
  clean, paths run in the right direction, ports and sockets are consistent, keys never change;
  so tree routing never panics. For each handler of tree and snake, the effect on every field.
  The handshake of bootstrap ACK, setup and setup ACK establishes the ascending path; the router
  refines the machine of its links, so a step gains at most one link, for a frame it heard, and
  a link is only replaced by a better one, by a renewed one, or after it has expired. A stored
  announcement is only replaced by one that is not older. Every operation changes a field only under its lock.
  Tasks that keep the common order of locks finish whatever their interleaving; the two that do
  not, a setup ACK that completes a handshake and the disconnection of the node itself, can
  deadlock. In a network of routers, whatever the network does to their frames, an announcement
  names a path it took and fails the integrity check only for a loop; two nodes that meet can get
  linked in tree and snake by the frames they send each other; and every path a node holds was
  offered or acknowledged by the node it leads to, in a handshake without gaps. The scenarios of the unit tests pass for all
  keys in the order the tests fix. A stream of frames decodes to these frames. In a converged network greedy routing
  delivers every packet. Sessions only receive frames of their own peer, and what is typed into
  the chat is shown at the other end. Several theorems state what the code does where it departs
  from what its comments or its design ask for; their texts say so.

  \<^bold>\<open>Fuel and termination.\<close> Besides loops over lists there are five recursions. The search for a free
  port ends because the port number grows towards its maximum; the chat, the menu and the
  check of UTF-8 end because the input gets shorter; the decoder of a stream ends because every
  frame takes bytes off the buffer. No definition needs fuel. The hop count of \<open>tree_route\<close> is a
  bound of the statement: the distance to the destination is enough.

  \<^bold>\<open>Not modelled.\<close> The start-up of the command line program (arguments, key generation, logging,
  binding the socket) and its prompts, which only call libraries; \<open>lib.rs\<close>, which declares
  modules; \<open>Display\<close>; wakers, and how many frames a channel holds, beyond the answer that it is
  full. The lists of \<open>Lock_Traces\<close> are those of operations that do not panic inside a loop over
  peers or paths.
\<close>

end
